theory Spec2Isabelle
  imports Complex_Main
begin

section \<open>Floating-point values as the indicators use them\<close>

text \<open>
  The price columns are pandas series of IEEE doubles. A value is modelled as a finite
  number, one of the two infinities, or not-a-number. The special values follow IEEE 754:
  not-a-number is absorbing, a finite non-zero number divided by zero is an infinity, zero
  divided by zero is not-a-number, and every comparison with not-a-number is false. Signed
  zeros are not distinguished. The operations \<open>fadd\<close>, \<open>fsub\<close>, \<open>fmul\<close> and
  \<open>fdiv\<close> are exact on finite values. The operations \<open>dadd\<close>, \<open>dsub\<close>,
  \<open>dmul\<close> and \<open>ddiv\<close> further below add the range of a double: a finite result
  that rounding takes beyond the largest double becomes an infinity. They are the
  arithmetic of the Parabolic SAR and of the Relative Strength Index, whose properties
  turn on results being finite, infinite or undefined; the other indicators are written
  with the exact operations. Rounding inside the range is not modelled.
\<close>

datatype fl = Fin real | PInf | NInf | NaN

fun isnan :: "fl \<Rightarrow> bool" where
  "isnan NaN = True"
| "isnan _ = False"

fun is_finite :: "fl \<Rightarrow> bool" where
  "is_finite (Fin _) = True"
| "is_finite _ = False"

fun fsgn :: "fl \<Rightarrow> int" where
  "fsgn (Fin a) = (if a < 0 then - 1 else if a = 0 then 0 else 1)"
| "fsgn PInf = 1"
| "fsgn NInf = - 1"
| "fsgn NaN = 0"

fun fneg :: "fl \<Rightarrow> fl" where
  "fneg (Fin a) = Fin (- a)"
| "fneg PInf = NInf"
| "fneg NInf = PInf"
| "fneg NaN = NaN"

fun fadd :: "fl \<Rightarrow> fl \<Rightarrow> fl" where
  "fadd NaN _ = NaN"
| "fadd _ NaN = NaN"
| "fadd (Fin a) (Fin b) = Fin (a + b)"
| "fadd PInf NInf = NaN"
| "fadd NInf PInf = NaN"
| "fadd PInf _ = PInf"
| "fadd _ PInf = PInf"
| "fadd NInf _ = NInf"
| "fadd _ NInf = NInf"

definition fsub :: "fl \<Rightarrow> fl \<Rightarrow> fl" where
  "fsub a b = fadd a (fneg b)"

fun fmul :: "fl \<Rightarrow> fl \<Rightarrow> fl" where
  "fmul NaN _ = NaN"
| "fmul _ NaN = NaN"
| "fmul (Fin a) (Fin b) = Fin (a * b)"
| "fmul a b = (let s = fsgn a * fsgn b in if s = 0 then NaN else if 0 < s then PInf else NInf)"

fun fdiv :: "fl \<Rightarrow> fl \<Rightarrow> fl" where
  "fdiv NaN _ = NaN"
| "fdiv _ NaN = NaN"
| "fdiv (Fin a) (Fin b) =
     (if b \<noteq> 0 then Fin (a / b) else if 0 < a then PInf else if a < 0 then NInf else NaN)"
| "fdiv (Fin a) _ = Fin 0"
| "fdiv a (Fin b) = (if 0 \<le> b then a else fneg a)"
| "fdiv _ _ = NaN"

fun fabs :: "fl \<Rightarrow> fl" where
  "fabs (Fin a) = Fin \<bar>a\<bar>"
| "fabs PInf = PInf"
| "fabs NInf = PInf"
| "fabs NaN = NaN"

fun flt :: "fl \<Rightarrow> fl \<Rightarrow> bool" where
  "flt NaN _ = False"
| "flt _ NaN = False"
| "flt (Fin a) (Fin b) = (a < b)"
| "flt _ NInf = False"
| "flt PInf _ = False"
| "flt _ _ = True"

definition fgt :: "fl \<Rightarrow> fl \<Rightarrow> bool" where
  "fgt a b = flt b a"

definition fle :: "fl \<Rightarrow> fl \<Rightarrow> bool" where
  "fle a b = (\<not> isnan a \<and> \<not> isnan b \<and> \<not> flt b a)"

definition feq :: "fl \<Rightarrow> fl \<Rightarrow> bool" where
  "feq a b = (\<not> isnan a \<and> a = b)"

text \<open>\<^verbatim>\<open>np.max\<close> and \<^verbatim>\<open>np.min\<close> of a two-element list: not-a-number wins.\<close>

definition np_max :: "fl \<Rightarrow> fl \<Rightarrow> fl" where
  "np_max a b = (if isnan a \<or> isnan b then NaN else if flt a b then b else a)"

definition np_min :: "fl \<Rightarrow> fl \<Rightarrow> fl" where
  "np_min a b = (if isnan a \<or> isnan b then NaN else if flt b a then b else a)"

text \<open>
  The bound from which round-to-nearest gives an infinity: half a unit in the last place
  above the largest double, which is \<open>2 ^ 1024 - 2 ^ 971\<close>.
\<close>

definition overflow_at :: real where
  "overflow_at = 2 ^ 1024 - 2 ^ 970"

definition rng :: "real \<Rightarrow> fl" where
  "rng r = (if overflow_at \<le> r then PInf else if r \<le> - overflow_at then NInf else Fin r)"

fun dadd :: "fl \<Rightarrow> fl \<Rightarrow> fl" where
  "dadd (Fin a) (Fin b) = rng (a + b)"
| "dadd a b = fadd a b"

definition dsub :: "fl \<Rightarrow> fl \<Rightarrow> fl" where
  "dsub a b = dadd a (fneg b)"

fun dmul :: "fl \<Rightarrow> fl \<Rightarrow> fl" where
  "dmul (Fin a) (Fin b) = rng (a * b)"
| "dmul a b = fmul a b"

fun ddiv :: "fl \<Rightarrow> fl \<Rightarrow> fl" where
  "ddiv (Fin a) (Fin b) = (if b \<noteq> 0 then rng (a / b) else fdiv (Fin a) (Fin b))"
| "ddiv a b = fdiv a b"

text \<open>\<^verbatim>\<open>Series.shift(1)\<close>: every value moves one bar later, the first bar is undefined.\<close>

definition shift1 :: "fl list \<Rightarrow> fl list" where
  "shift1 xs = (if xs = [] then [] else NaN # butlast xs)"

text \<open>
  A finite value that is not negative, one of magnitude at most \<open>B\<close>, and one between
  \<open>lo\<close> and \<open>hi\<close>.
\<close>

fun nonneg_fin :: "fl \<Rightarrow> bool" where
  "nonneg_fin (Fin r) = (0 \<le> r)"
| "nonneg_fin _ = False"

fun mag_le :: "real \<Rightarrow> fl \<Rightarrow> bool" where
  "mag_le B (Fin r) = (abs r \<le> B)"
| "mag_le B _ = False"

fun in_band :: "real \<Rightarrow> real \<Rightarrow> fl \<Rightarrow> bool" where
  "in_band lo hi (Fin r) = (lo \<le> r \<and> r \<le> hi)"
| "in_band lo hi _ = False"

section \<open>The asset\<close>

datatype py_error = IndexError | ValueError

text \<open>
  A timestamp of the index: its day number (timestamps compare and subtract by it) and the
  calendar year and month that the return table is keyed by.
\<close>

record tstamp =
  ordinal :: int
  year :: int
  month :: nat

record bar =
  Date :: tstamp
  Open :: fl
  High :: fl
  Low :: fl
  Close :: fl
  Volume :: fl

record Asset =
  symbol :: string
  data :: "bar list"
  market_cap :: fl

definition high :: "Asset \<Rightarrow> fl list" where
  "high a = map High (data a)"

definition low :: "Asset \<Rightarrow> fl list" where
  "low a = map Low (data a)"

definition close :: "Asset \<Rightarrow> fl list" where
  "close a = map Close (data a)"

definition index :: "Asset \<Rightarrow> tstamp list" where
  "index a = map Date (data a)"

section \<open>Parabolic SAR\<close>

text \<open>
  The local variables of \<^verbatim>\<open>parabolic_sar\<close>: the extreme point, the acceleration factor,
  the stop value, the trend flag and the two output columns, which start as all zeros and
  are written by position. The four tunables are doubles like the prices; the acceleration
  factor and the stop value are computed in doubles and can leave their range.
\<close>

record sar_vars =
  ep :: fl
  af :: fl
  sar :: fl
  up :: bool
  r_sar :: "fl list"
  f_sar :: "fl list"

record sar_frame =
  rising :: "fl list"
  falling :: "fl list"

text \<open>One pass through the body of \<^verbatim>\<open>for i in range(1, len(high))\<close>.\<close>

definition sar_body ::
  "fl \<Rightarrow> fl \<Rightarrow> fl \<Rightarrow> fl \<Rightarrow> fl list \<Rightarrow> fl list \<Rightarrow> nat \<Rightarrow> sar_vars \<Rightarrow> sar_vars" where
  "sar_body step_r step_f max_af_r max_af_f hs ls i v =
     (let v1 =
        (if up v then
           (let e = np_max (ep v) (hs ! i);
                a = np_min (if feq e (hs ! i) then dadd (af v) step_r else af v)
                           max_af_r;
                s = dadd (sar v) (dmul a (dsub e (sar v)))
            in v\<lparr>ep := e, af := a, sar := s, r_sar := (r_sar v)[i := s]\<rparr>)
         else
           (let e = np_min (ep v) (ls ! i);
                a = np_min (if feq e (ls ! i) then dadd (af v) step_f else af v)
                           max_af_f;
                s = dadd (sar v) (dmul a (dsub e (sar v)))
            in v\<lparr>ep := e, af := a, sar := s, f_sar := (f_sar v)[i := s]\<rparr>))
      in if up v1 \<and> (fgt (sar v1) (ls ! i) \<or> fgt (sar v1) (hs ! i))
         then v1\<lparr>up := False, sar := ep v1, af := step_f\<rparr>
         else if \<not> up v1 \<and> (flt (sar v1) (ls ! i) \<or> flt (sar v1) (hs ! i))
         then v1\<lparr>up := True, sar := ep v1, af := step_r\<rparr>
         else v1)"

definition sar_start :: "fl \<Rightarrow> fl list \<Rightarrow> fl list \<Rightarrow> sar_vars" where
  "sar_start step_r hs ls =
     \<lparr>ep = hs ! 0, af = step_r, sar = ls ! 0, up = True,
      r_sar = replicate (length hs) (Fin 0), f_sar = replicate (length hs) (Fin 0)\<rparr>"

text \<open>The variables on entry to iteration \<open>i\<close> of the loop (\<open>1 \<le> i\<close>).\<close>

definition sar_vars_at ::
  "fl \<Rightarrow> fl \<Rightarrow> fl \<Rightarrow> fl \<Rightarrow> fl list \<Rightarrow> fl list \<Rightarrow> nat \<Rightarrow> sar_vars" where
  "sar_vars_at step_r step_f max_af_r max_af_f hs ls i =
     fold (sar_body step_r step_f max_af_r max_af_f hs ls) [1..<i] (sar_start step_r hs ls)"

text \<open>\<^verbatim>\<open>high[0]\<close> raises on an empty frame.\<close>

definition parabolic_sar ::
  "Asset \<Rightarrow> fl \<Rightarrow> fl \<Rightarrow> fl \<Rightarrow> fl \<Rightarrow> py_error + sar_frame" where
  "parabolic_sar a step_r step_f max_af_r max_af_f =
     (let hs = high a; ls = low a in
      if hs = [] then Inl IndexError
      else
        (let v = sar_vars_at step_r step_f max_af_r max_af_f hs ls (length hs)
         in Inr \<lparr>rising = r_sar v, falling = f_sar v\<rparr>))"

subsection \<open>The fold over bars, in the words of the specification\<close>

text \<open>
  The specification describes the indicator as a left-to-right fold over the bars that
  threads a small state and emits one row per bar. The definitions of this subsection are
  written from that description and use none of the comparisons of the loop above: an
  order on the values in which an undefined value is neither above nor below anything,
  the larger and the smaller of two values, undefined when one of them is, and ``at
  least''.
\<close>

fun above :: "fl \<Rightarrow> fl \<Rightarrow> bool" where
  "above NaN _ = False"
| "above _ NaN = False"
| "above (Fin a) (Fin b) = (b < a)"
| "above PInf PInf = False"
| "above PInf _ = True"
| "above _ PInf = False"
| "above NInf _ = False"
| "above _ NInf = True"

definition at_least :: "fl \<Rightarrow> fl \<Rightarrow> bool" where
  "at_least a b = (above a b \<or> (a = b \<and> a \<noteq> NaN))"

fun larger :: "fl \<Rightarrow> fl \<Rightarrow> fl" where
  "larger NaN _ = NaN"
| "larger _ NaN = NaN"
| "larger (Fin a) (Fin b) = Fin (max a b)"
| "larger PInf _ = PInf"
| "larger _ PInf = PInf"
| "larger NInf b = b"
| "larger a NInf = a"

fun smaller :: "fl \<Rightarrow> fl \<Rightarrow> fl" where
  "smaller NaN _ = NaN"
| "smaller _ NaN = NaN"
| "smaller (Fin a) (Fin b) = Fin (min a b)"
| "smaller NInf _ = NInf"
| "smaller _ NInf = NInf"
| "smaller PInf b = b"
| "smaller a PInf = a"

record sar_state =
  EP :: fl
  AF :: fl
  SAR :: fl
  is_rising :: bool

text \<open>Initial state: EP = first high, AF = \<open>step_r\<close>, SAR = first low, direction rising.\<close>

definition spec_init :: "fl \<Rightarrow> bar \<Rightarrow> sar_state" where
  "spec_init step_r b = \<lparr>EP = High b, AF = step_r, SAR = Low b, is_rising = True\<rparr>"

text \<open>
  The update of a bar as the claim words it. While rising, EP becomes the larger of EP
  and the high; AF increases by \<open>step_r\<close>, capped at \<open>max_af_r\<close>, only when EP was updated
  to the bar's high, that is, when the high is above the previous EP; SAR becomes
  SAR + AF * (EP - SAR). Symmetrically while falling.
\<close>

definition claimed_advance ::
  "fl \<Rightarrow> fl \<Rightarrow> fl \<Rightarrow> fl \<Rightarrow> sar_state \<Rightarrow> bar \<Rightarrow> sar_state" where
  "claimed_advance step_r step_f max_af_r max_af_f s b =
     (if is_rising s then
        (let e = larger (EP s) (High b);
             a = (if above (High b) (EP s)
                  then smaller (dadd (AF s) step_r) max_af_r else AF s)
         in s\<lparr>EP := e, AF := a, SAR := dadd (SAR s) (dmul a (dsub e (SAR s)))\<rparr>)
      else
        (let e = smaller (EP s) (Low b);
             a = (if above (EP s) (Low b)
                  then smaller (dadd (AF s) step_f) max_af_f else AF s)
         in s\<lparr>EP := e, AF := a, SAR := dadd (SAR s) (dmul a (dsub e (SAR s)))\<rparr>))"

text \<open>
  The update of a bar as amended. AF increases by \<open>step_r\<close> when the bar's high is at
  least the previous EP, so also when it ties it, and the cap \<open>max_af_r\<close> is applied to
  AF on every bar, increased or not. Symmetrically while falling, with the low at most
  the previous EP.
\<close>

definition spec_advance ::
  "fl \<Rightarrow> fl \<Rightarrow> fl \<Rightarrow> fl \<Rightarrow> sar_state \<Rightarrow> bar \<Rightarrow> sar_state" where
  "spec_advance step_r step_f max_af_r max_af_f s b =
     (if is_rising s then
        (let e = larger (EP s) (High b);
             a = smaller (if at_least (High b) (EP s) then dadd (AF s) step_r else AF s)
                         max_af_r
         in s\<lparr>EP := e, AF := a, SAR := dadd (SAR s) (dmul a (dsub e (SAR s)))\<rparr>)
      else
        (let e = smaller (EP s) (Low b);
             a = smaller (if at_least (EP s) (Low b) then dadd (AF s) step_f else AF s)
                         max_af_f
         in s\<lparr>EP := e, AF := a, SAR := dadd (SAR s) (dmul a (dsub e (SAR s)))\<rparr>))"

text \<open>
  The trend flips to falling when SAR exceeds the bar's low or its high, and to rising
  when the low or the high exceeds SAR; a flip resets SAR to EP and AF to the step of the
  new direction.
\<close>

definition spec_flip :: "fl \<Rightarrow> fl \<Rightarrow> sar_state \<Rightarrow> bar \<Rightarrow> sar_state" where
  "spec_flip step_r step_f s b =
     (if is_rising s \<and> (above (SAR s) (Low b) \<or> above (SAR s) (High b))
      then s\<lparr>is_rising := False, SAR := EP s, AF := step_f\<rparr>
      else if \<not> is_rising s \<and> (above (Low b) (SAR s) \<or> above (High b) (SAR s))
      then s\<lparr>is_rising := True, SAR := EP s, AF := step_r\<rparr>
      else s)"

text \<open>
  The rows of the fold for a given update: the row of a bar carries the updated SAR in
  the column of the direction in which the bar was entered, and zero in the other.
\<close>

fun fold_rows ::
  "(sar_state \<Rightarrow> bar \<Rightarrow> sar_state) \<Rightarrow> (sar_state \<Rightarrow> bar \<Rightarrow> sar_state) \<Rightarrow>
   sar_state \<Rightarrow> bar list \<Rightarrow> (fl \<times> fl) list" where
  "fold_rows advance flip s [] = []"
| "fold_rows advance flip s (b # bs) =
     (let s1 = advance s b
      in (if is_rising s then (SAR s1, Fin 0) else (Fin 0, SAR s1))
         # fold_rows advance flip (flip s1 b) bs)"

definition fold_frame ::
  "(sar_state \<Rightarrow> bar \<Rightarrow> sar_state) \<Rightarrow> fl \<Rightarrow> fl \<Rightarrow> bar list \<Rightarrow> py_error + sar_frame" where
  "fold_frame advance step_r step_f bars =
     (case bars of
        [] \<Rightarrow> Inl IndexError
      | b # bs \<Rightarrow>
          (let rows = (Fin 0, Fin 0)
                 # fold_rows advance (spec_flip step_r step_f) (spec_init step_r b) bs
           in Inr \<lparr>rising = map fst rows, falling = map snd rows\<rparr>))"

definition claimed_fold :: "fl \<Rightarrow> fl \<Rightarrow> fl \<Rightarrow> fl \<Rightarrow> bar list \<Rightarrow> py_error + sar_frame" where
  "claimed_fold step_r step_f max_af_r max_af_f bars =
     fold_frame (claimed_advance step_r step_f max_af_r max_af_f) step_r step_f bars"

definition sar_fold :: "fl \<Rightarrow> fl \<Rightarrow> fl \<Rightarrow> fl \<Rightarrow> bar list \<Rightarrow> py_error + sar_frame" where
  "sar_fold step_r step_f max_af_r max_af_f bars =
     fold_frame (spec_advance step_r step_f max_af_r max_af_f) step_r step_f bars"

text \<open>The loop's scalar variables, read as a state of the fold.\<close>

definition sar_core :: "sar_vars \<Rightarrow> sar_state" where
  "sar_core v = \<lparr>EP = ep v, AF = af v, SAR = sar v, is_rising = up v\<rparr>"

text \<open>Frames of bars given by their highs and lows.\<close>

definition range_bar :: "nat \<Rightarrow> real \<times> real \<Rightarrow> bar" where
  "range_bar d hl =
     \<lparr>Date = \<lparr>ordinal = int d, year = 2020, month = 1\<rparr>,
      Open = Fin (snd hl), High = Fin (fst hl), Low = Fin (snd hl), Close = Fin (fst hl),
      Volume = Fin 1\<rparr>"

definition asset_of_ranges :: "(real \<times> real) list \<Rightarrow> Asset" where
  "asset_of_ranges hls =
     \<lparr>symbol = ''DEMO'', data = map2 range_bar [0..<length hls] hls, market_cap = Fin 1\<rparr>"

text \<open>A three-bar frame on which the trend flips at the second bar.\<close>

definition sar_demo :: Asset where
  "sar_demo = asset_of_ranges [(10, 9), (11, 8), (12, 23 / 2)]"

text \<open>Two bars with the same high, and two bars of which the second makes no new high.\<close>

definition sar_tie :: Asset where
  "sar_tie = asset_of_ranges [(10, 8), (10, 8)]"

definition sar_lower :: Asset where
  "sar_lower = asset_of_ranges [(10, 8), (9, 8)]"

text \<open>Two bars whose range is as wide as the range of a double.\<close>

definition sar_wide :: Asset where
  "sar_wide = asset_of_ranges [(2 ^ 1023, - (2 ^ 1023)), (2 ^ 1023, - (2 ^ 1023))]"

section \<open>Relative Strength Index\<close>

text \<open>
  \<^verbatim>\<open>Series.sum()\<close> skips undefined entries; the sum of no entries is zero. The entries
  summed by the indicator are never negative, so the order of the additions makes no
  difference to whether the sum leaves the range of a double. A window that holds
  undefined entries only sums to zero here, as in pandas with bottleneck; without it the
  pandas releases of the time return undefined. The window \<^verbatim>\<open>gain[0:n]\<close> holds a defined
  entry as soon as \<open>n \<ge> 2\<close> and the first two closes are defined.
\<close>

fun series_sum :: "fl list \<Rightarrow> fl" where
  "series_sum [] = Fin 0"
| "series_sum (x # xs) = (if isnan x then series_sum xs else dadd x (series_sum xs))"

text \<open>
  \<^verbatim>\<open>change = close - close.shift(1)\<close>, then the two clipped copies: \<^verbatim>\<open>gain[gain < 0] = 0.0\<close>,
  and \<^verbatim>\<open>loss[loss > 0] = 0.0\<close> followed by \<^verbatim>\<open>loss = -1.0 * loss\<close>. The change of the first
  bar is undefined, and both comparisons are false on it, so it stays undefined in both.
\<close>

definition rsi_change :: "fl list \<Rightarrow> fl list" where
  "rsi_change cl = map2 dsub cl (shift1 cl)"

definition rsi_gain :: "fl list \<Rightarrow> fl list" where
  "rsi_gain cl = map (\<lambda>c. if flt c (Fin 0) then Fin 0 else c) (rsi_change cl)"

definition rsi_loss :: "fl list \<Rightarrow> fl list" where
  "rsi_loss cl =
     map (dmul (Fin (- 1))) (map (\<lambda>c. if fgt c (Fin 0) then Fin 0 else c) (rsi_change cl))"

record rsi_avgs =
  avg_gain :: "fl list"
  avg_loss :: "fl list"

text \<open>
  Both averages start as all zeros; the seed is stored at position \<open>n\<close>:
  \<^verbatim>\<open>avg_gain[n] = gain[0:n].sum() / n\<close>.
\<close>

definition rsi_seed :: "nat \<Rightarrow> fl list \<Rightarrow> fl list \<Rightarrow> rsi_avgs" where
  "rsi_seed n gain loss =
     \<lparr>avg_gain = (replicate (length gain) (Fin 0))[n := ddiv (series_sum (take n gain)) (Fin (real n))],
      avg_loss = (replicate (length loss) (Fin 0))[n := ddiv (series_sum (take n loss)) (Fin (real n))]\<rparr>"

text \<open>
  The body of \<^verbatim>\<open>for i in range(n+1, len(gain))\<close>:
  \<^verbatim>\<open>avg_gain[i] = (n-1) * (avg_gain[i-1] / n) + (gain[i] / n)\<close>, and the same for the loss.
\<close>

definition rsi_body :: "nat \<Rightarrow> fl list \<Rightarrow> fl list \<Rightarrow> nat \<Rightarrow> rsi_avgs \<Rightarrow> rsi_avgs" where
  "rsi_body n gain loss i v =
     (let g = dadd (dmul (Fin (real n - 1)) (ddiv (avg_gain v ! (i - 1)) (Fin (real n))))
                   (ddiv (gain ! i) (Fin (real n)));
          v1 = v\<lparr>avg_gain := (avg_gain v)[i := g]\<rparr>;
          l = dadd (dmul (Fin (real n - 1)) (ddiv (avg_loss v1 ! (i - 1)) (Fin (real n))))
                   (ddiv (loss ! i) (Fin (real n)))
      in v1\<lparr>avg_loss := (avg_loss v1)[i := l]\<rparr>)"

text \<open>The two averages on entry to iteration \<open>k\<close> of the loop (\<open>n < k\<close>).\<close>

definition rsi_avgs_at :: "nat \<Rightarrow> fl list \<Rightarrow> fl list \<Rightarrow> nat \<Rightarrow> rsi_avgs" where
  "rsi_avgs_at n gain loss k = fold (rsi_body n gain loss) [n + 1..<k] (rsi_seed n gain loss)"

text \<open>
  The averages that the indicator divides. Storing the seed at position \<open>n\<close> raises when
  the series has no such position.
\<close>

definition rsi_averages :: "nat \<Rightarrow> fl list \<Rightarrow> py_error + rsi_avgs" where
  "rsi_averages n cl =
     (let gain = rsi_gain cl; loss = rsi_loss cl in
      if length gain \<le> n then Inl IndexError
      else Inr (rsi_avgs_at n gain loss (length gain)))"

text \<open>\<^verbatim>\<open>rs = avg_gain / avg_loss\<close> and \<^verbatim>\<open>100.0 - (100.0 / (1.0 + rs))\<close>, bar by bar.\<close>

definition rsi_of :: "fl \<Rightarrow> fl \<Rightarrow> fl" where
  "rsi_of g l = dsub (Fin 100) (ddiv (Fin 100) (dadd (Fin 1) (ddiv g l)))"

definition relative_strength_index :: "Asset \<Rightarrow> nat \<Rightarrow> py_error + fl list" where
  "relative_strength_index a n =
     (case rsi_averages n (close a) of
        Inl e \<Rightarrow> Inl e
      | Inr v \<Rightarrow> Inr (map2 rsi_of (avg_gain v) (avg_loss v)))"

text \<open>An asset that carries the given closes on consecutive days of one month.\<close>

definition day_bar :: "nat \<Rightarrow> real \<Rightarrow> bar" where
  "day_bar d c =
     \<lparr>Date = \<lparr>ordinal = int d, year = 2020, month = 1\<rparr>,
      Open = Fin c, High = Fin c, Low = Fin c, Close = Fin c, Volume = Fin 1\<rparr>"

definition asset_of_closes :: "real list \<Rightarrow> Asset" where
  "asset_of_closes cs =
     \<lparr>symbol = ''DEMO'', data = map2 day_bar [0..<length cs] cs, market_cap = Fin 1\<rparr>"

text \<open>A value that is undefined, positive infinity, or a finite number that is not negative.\<close>

fun not_negative :: "fl \<Rightarrow> bool" where
  "not_negative (Fin r) = (0 \<le> r)"
| "not_negative NInf = False"
| "not_negative _ = True"

text \<open>Five closes that swing across the whole range of a double.\<close>

definition rsi_wide :: Asset where
  "rsi_wide = asset_of_closes [- (2 ^ 1023), 2 ^ 1023, - (2 ^ 1023), 2 ^ 1023, - (2 ^ 1023)]"

section \<open>Drawdown\<close>

text \<open>\<^verbatim>\<open>Series.ffill()\<close>: an undefined entry takes the last defined value before it.\<close>

fun ffill_from :: "fl \<Rightarrow> fl list \<Rightarrow> fl list" where
  "ffill_from lastv [] = []"
| "ffill_from lastv (x # xs) =
     (if isnan x then lastv # ffill_from lastv xs else x # ffill_from x xs)"

definition ffill :: "fl list \<Rightarrow> fl list" where
  "ffill xs = ffill_from NaN xs"

text \<open>
  \<^verbatim>\<open>Series.expanding().max()\<close>: the maximum of the finite entries up to and including
  each bar, undefined while there is none. The window functions of pandas take an
  infinite entry for a missing one, as they do an undefined entry.
\<close>

fun expanding_max_from :: "fl \<Rightarrow> fl list \<Rightarrow> fl list" where
  "expanding_max_from m [] = []"
| "expanding_max_from m (x # xs) =
     (let m' = (if is_finite x \<and> (isnan m \<or> flt m x) then x else m)
      in m' # expanding_max_from m' xs)"

definition expanding_max :: "fl list \<Rightarrow> fl list" where
  "expanding_max xs = expanding_max_from NaN xs"

definition drawdown :: "Asset \<Rightarrow> fl list" where
  "drawdown a =
     (let draw_down = ffill (close a);
          draw_down = map (\<lambda>x. if isnan x then NInf else x) draw_down;
          highest_high = expanding_max draw_down
      in map2 (\<lambda>d h. fsub (fdiv d h) (Fin 1)) draw_down highest_high)"

subsection \<open>The table of drawdown episodes\<close>

text \<open>
  A shifted boolean series has no value at the first bar; in \<^verbatim>\<open>&\<close> that missing value
  counts as false.
\<close>

definition shift_bool :: "bool list \<Rightarrow> bool list" where
  "shift_bool bs = (if bs = [] then [] else False # butlast bs)"

text \<open>The labels at which a boolean series is true: \<^verbatim>\<open>list(s[s].index)\<close>.\<close>

definition true_labels :: "tstamp list \<Rightarrow> bool list \<Rightarrow> tstamp list" where
  "true_labels idx bs = map fst (filter snd (zip idx bs))"

text \<open>
  \<^verbatim>\<open>series[s:e]\<close> by labels on an increasing index: the entries from \<open>s\<close> to \<open>e\<close>, both
  included.
\<close>

definition label_slice :: "tstamp list \<Rightarrow> fl list \<Rightarrow> tstamp \<Rightarrow> tstamp \<Rightarrow> fl list" where
  "label_slice idx xs s e =
     map snd (filter (\<lambda>(t, x). ordinal s \<le> ordinal t \<and> ordinal t \<le> ordinal e) (zip idx xs))"

text \<open>\<^verbatim>\<open>Series.min()\<close> skips undefined entries and is undefined when nothing is left.\<close>

fun series_min :: "fl list \<Rightarrow> fl" where
  "series_min [] = NaN"
| "series_min (x # xs) =
     (let m = series_min xs in if isnan x then m else if isnan m \<or> flt x m then x else m)"

record episode =
  ep_start :: tstamp
  ep_end :: tstamp
  ep_days :: int
  ep_drawdown :: fl

text \<open>
  \<^verbatim>\<open>drawdown_info\<close>. \<^verbatim>\<open>drawdown.index[-1]\<close> raises on an empty series, \<^verbatim>\<open>start[0]\<close> raises
  on an empty list, and the data frame refuses columns of different lengths.
\<close>

definition drawdown_info :: "Asset \<Rightarrow> py_error + episode list" where
  "drawdown_info a =
     (let dd = drawdown a;
          idx = index a;
          is_zero = map (\<lambda>x. feq x (Fin 0)) dd;
          start = true_labels idx (map2 (\<lambda>z p. \<not> z \<and> p) is_zero (shift_bool is_zero));
          end0 = true_labels idx (map2 (\<lambda>z p. z \<and> p) is_zero (shift_bool (map Not is_zero)))
      in if end0 = [] \<and> idx = [] then Inl IndexError
         else
           (let end1 = (if end0 = [] then end0 @ [last idx] else end0) in
            if start = [] then Inl IndexError
            else
              (let start1 = (if ordinal (hd start) > ordinal (hd end1) then hd idx # start else start);
                   end2 = (if ordinal (last start1) > ordinal (last end1) then end1 @ [last idx] else end1)
               in if length start1 \<noteq> length end2 then Inl ValueError
                  else Inr (map (\<lambda>(s, e).
                              \<lparr>ep_start = s, ep_end = e, ep_days = ordinal e - ordinal s,
                               ep_drawdown = series_min (label_slice idx dd s e)\<rparr>)
                            (zip start1 end2)))))"

text \<open>A finite value above zero, and the number a finite value stands for.\<close>

fun pos_fin :: "fl \<Rightarrow> bool" where
  "pos_fin (Fin r) = (0 < r)"
| "pos_fin _ = False"

fun fval :: "fl \<Rightarrow> real" where
  "fval (Fin r) = r"
| "fval _ = 0"

section \<open>ZigZag\<close>

text \<open>
  \<^verbatim>\<open>Series.interpolate()\<close> with its defaults is linear in the position: undefined entries
  between two defined ones lie on the line between them, undefined entries after the last
  defined one repeat it, and undefined entries before the first defined one stay
  undefined. \<open>interp_run v k\<close> has seen the defined value \<open>v\<close> and \<open>k\<close> undefined entries
  after it.
\<close>

definition interp_gap :: "fl \<Rightarrow> fl \<Rightarrow> nat \<Rightarrow> fl list" where
  "interp_gap v w k =
     map (\<lambda>j. fadd (fmul (fdiv (fsub w v) (Fin (real (k + 1)))) (Fin (real j))) v) [1..<k + 1]"

fun interp_run :: "fl \<Rightarrow> nat \<Rightarrow> fl list \<Rightarrow> fl list" where
  "interp_run v k [] = replicate k v"
| "interp_run v k (x # xs) =
     (if isnan x then interp_run v (Suc k) xs else interp_gap v x k @ x # interp_run x 0 xs)"

fun interpolate :: "fl list \<Rightarrow> fl list" where
  "interpolate [] = []"
| "interpolate (x # xs) = (if isnan x then NaN # interpolate xs else x # interp_run x 0 xs)"

text \<open>
  The local variables of \<^verbatim>\<open>zigzag\<close>: the last pivot value and the output series, which
  starts as all zeros with the first close stored at position 0. A bar that is not a pivot
  is stored as undefined (\<^verbatim>\<open>zigzag[i] = None\<close>).
\<close>

record zz_vars =
  lastzig :: fl
  zz :: "fl list"

definition zz_body :: "real \<Rightarrow> fl list \<Rightarrow> nat \<Rightarrow> zz_vars \<Rightarrow> zz_vars" where
  "zz_body percent x i v =
     (if fgt (fabs (fdiv (fsub (lastzig v) (x ! i)) (x ! i))) (Fin (percent / 100))
      then \<lparr>lastzig = x ! i, zz = (zz v)[i := x ! i]\<rparr>
      else v\<lparr>zz := (zz v)[i := NaN]\<rparr>)"

definition zz_start :: "fl list \<Rightarrow> zz_vars" where
  "zz_start x = \<lparr>lastzig = x ! 0, zz = (replicate (length x) (Fin 0))[0 := x ! 0]\<rparr>"

text \<open>The variables on entry to iteration \<open>k\<close> of \<^verbatim>\<open>for i in range(1, self.number_of_days)\<close>.\<close>

definition zz_vars_at :: "real \<Rightarrow> fl list \<Rightarrow> nat \<Rightarrow> zz_vars" where
  "zz_vars_at percent x k = fold (zz_body percent x) [1..<k] (zz_start x)"

text \<open>The series before the interpolation: a defined entry marks a pivot.\<close>

definition zigzag_marks :: "real \<Rightarrow> fl list \<Rightarrow> fl list" where
  "zigzag_marks percent x = zz (zz_vars_at percent x (length x))"

text \<open>\<^verbatim>\<open>x[0]\<close> raises on an empty series.\<close>

definition zigzag :: "Asset \<Rightarrow> real \<Rightarrow> py_error + fl list" where
  "zigzag a percent =
     (let x = close a in
      if x = [] then Inl IndexError else Inr (interpolate (zigzag_marks percent x)))"

text \<open>
  The pivot test and the interpolation are written with the exact operations. At the
  thresholds 0 and 100, where the theorems below use the test, the rounded quotient and
  the exact one fall on the same side.
\<close>

text \<open>An asset with no bars, and one whose second close is infinite.\<close>

definition no_bars :: Asset where
  "no_bars = \<lparr>symbol = ''DEMO'', data = [], market_cap = Fin 1\<rparr>"

definition zz_gap :: Asset where
  "zz_gap = \<lparr>symbol = ''DEMO'', data = [day_bar 0 1, (day_bar 1 1)\<lparr>Close := PInf\<rparr>],
             market_cap = Fin 1\<rparr>"

section \<open>Average Directional Index\<close>

text \<open>\<^verbatim>\<open>true_range\<close>: the high minus the previous low.\<close>

definition true_range :: "Asset \<Rightarrow> fl list" where
  "true_range a = map2 fsub (high a) (shift1 (low a))"

text \<open>
  The smoothing \<^verbatim>\<open>ema\<close> comes from the package's utilities and is a parameter here: a
  function from a series and a window to a series on the same index.

  \<^verbatim>\<open>pdm\<close> and \<^verbatim>\<open>ndm\<close> start as zeros and receive the up-move, respectively the down-move,
  at the bars where it is the larger of the two. \<open>directional_index\<close> is the series
  \<^verbatim>\<open>dx\<close> of the source.
\<close>

definition plus_dm :: "Asset \<Rightarrow> fl list" where
  "plus_dm a =
     map2 (\<lambda>u d. if fgt u d then u else Fin 0)
       (map2 fsub (high a) (shift1 (high a))) (map2 fsub (shift1 (low a)) (low a))"

definition minus_dm :: "Asset \<Rightarrow> fl list" where
  "minus_dm a =
     map2 (\<lambda>u d. if fgt d u then d else Fin 0)
       (map2 fsub (high a) (shift1 (high a))) (map2 fsub (shift1 (low a)) (low a))"

definition directional_index :: "(fl list \<Rightarrow> nat \<Rightarrow> fl list) \<Rightarrow> Asset \<Rightarrow> nat \<Rightarrow> fl list" where
  "directional_index ema a n =
     (let tr = true_range a;
          pdm = plus_dm a;
          ndm = minus_dm a;
          trn = ema tr n;
          pdmn = ema pdm n;
          ndmn = ema ndm n;
          pdin = map2 fdiv pdmn trn;
          ndin = map2 fdiv ndmn trn
      in map fabs (map2 fdiv (map2 fsub pdin ndin) (map2 fadd pdin ndin)))"

text \<open>\<^verbatim>\<open>adx = ((n-1) * dx.shift(1) + dx) / n\<close>.\<close>

definition average_directional_index ::
  "(fl list \<Rightarrow> nat \<Rightarrow> fl list) \<Rightarrow> Asset \<Rightarrow> nat \<Rightarrow> fl list" where
  "average_directional_index ema a n =
     (let dx = directional_index ema a n
      in map (\<lambda>v. fdiv v (Fin (real n)))
           (map2 fadd (map (fmul (Fin (real n - 1))) (shift1 dx)) dx))"

text \<open>
  Modelled from the spec: \<^verbatim>\<open>ema\<close> of \<^verbatim>\<open>compfipy.util\<close> is not among the sources; the
  specification calls it the exponential smoothing with factor \<open>n\<close>. It is taken to be the
  exponentially weighted mean of pandas with centre of mass \<open>n\<close> and adjusted weights:
  each value weighs \<open>n / (n + 1)\<close> times the value after it, undefined values are passed
  over while the weights keep decaying, and the output is undefined until the first
  defined value. It serves as a concrete smoothing where one is needed.
\<close>

fun ewma_run :: "real \<Rightarrow> fl \<Rightarrow> real \<Rightarrow> fl list \<Rightarrow> fl list" where
  "ewma_run f avg w [] = []"
| "ewma_run f avg w (cur # xs) =
     (if \<not> isnan avg then
        (if \<not> isnan cur then
           (let avg' = fdiv (fadd (fmul (Fin (w * f)) avg) cur) (Fin (w * f + 1))
            in avg' # ewma_run f avg' (w * f + 1) xs)
         else avg # ewma_run f avg (w * f) xs)
      else if \<not> isnan cur then cur # ewma_run f cur w xs
      else avg # ewma_run f avg w xs)"

definition ewma :: "fl list \<Rightarrow> nat \<Rightarrow> fl list" where
  "ewma xs n =
     (case xs of [] \<Rightarrow> [] | x # rest \<Rightarrow> x # ewma_run (1 - 1 / (1 + real n)) x 1 rest)"

text \<open>Four bars: an up-move at the second bar, a down-move at the third.\<close>

definition adx_demo :: Asset where
  "adx_demo = \<lparr>symbol = ''DEMO'',
     data = [\<lparr>Date = \<lparr>ordinal = 0, year = 2020, month = 1\<rparr>, Open = Fin 9, High = Fin 10, Low = Fin 9, Close = Fin 10, Volume = Fin 1\<rparr>,
             \<lparr>Date = \<lparr>ordinal = 1, year = 2020, month = 1\<rparr>, Open = Fin 10, High = Fin 11, Low = Fin 10, Close = Fin 11, Volume = Fin 1\<rparr>,
             \<lparr>Date = \<lparr>ordinal = 2, year = 2020, month = 1\<rparr>, Open = Fin 10, High = Fin 11, Low = Fin 8, Close = Fin 9, Volume = Fin 1\<rparr>,
             \<lparr>Date = \<lparr>ordinal = 3, year = 2020, month = 1\<rparr>, Open = Fin 9, High = Fin 12, Low = Fin 9, Close = Fin 11, Volume = Fin 1\<rparr>],
     market_cap = Fin 1\<rparr>"

section \<open>Summary statistics\<close>

type_synonym series = "(tstamp \<times> fl) list"

datatype freq = Monthly | Annual

text \<open>
  What \<^verbatim>\<open>calc_stats\<close> calls and the sources do not hold is a parameter: the constants and
  the functions \<^verbatim>\<open>calc_returns\<close> and \<^verbatim>\<open>calc_cagr\<close> of \<^verbatim>\<open>compfipy.util\<close>, and the numpy
  and pandas routines (power and square root, resampling to the last value of a period,
  mean, standard deviation, skewness, kurtosis, the label of the maximum and of the
  minimum, a timestamp moved back by calendar months or years, and the relative change
  over a number of periods).
\<close>

record lib =
  MONTHS_IN_YEAR :: real
  DAYS_IN_TRADING_YEAR :: real
  calc_returns :: "series \<Rightarrow> series"
  calc_cagr :: "series \<Rightarrow> fl"
  np_power :: "fl \<Rightarrow> fl \<Rightarrow> fl"
  np_sqrt :: "fl \<Rightarrow> fl"
  resample_last :: "freq \<Rightarrow> series \<Rightarrow> series"
  mean :: "fl list \<Rightarrow> fl"
  std :: "fl list \<Rightarrow> fl"
  skew :: "fl list \<Rightarrow> fl"
  kurt :: "fl list \<Rightarrow> fl"
  idxmax :: "series \<Rightarrow> tstamp"
  idxmin :: "series \<Rightarrow> tstamp"
  minus_months :: "tstamp \<Rightarrow> nat \<Rightarrow> tstamp"
  minus_years :: "tstamp \<Rightarrow> nat \<Rightarrow> tstamp"
  pct_change :: "nat \<Rightarrow> fl list \<Rightarrow> fl list"

text \<open>
  A value of the \<^verbatim>\<open>stats\<close> dictionary: the name, a timestamp, a number, a slice of a
  series, or the return table, a dictionary from years to dictionaries from month numbers
  to returns.
\<close>

datatype stat_value =
    Text string
  | Stamp tstamp
  | Num fl
  | Points series
  | Table "(int \<times> (nat \<times> fl) list) list"

type_synonym stats = "string \<rightharpoonup> stat_value"

text \<open>A dictionary with insertion order: storing under a present key replaces its value.\<close>

fun dict_set :: "'k \<Rightarrow> 'v \<Rightarrow> ('k \<times> 'v) list \<Rightarrow> ('k \<times> 'v) list" where
  "dict_set k v [] = [(k, v)]"
| "dict_set k v (p # ps) = (if fst p = k then (k, v) # ps else p # dict_set k v ps)"

text \<open>\<^verbatim>\<open>table[y][m] = v\<close> on a \<^verbatim>\<open>defaultdict(dict)\<close>: a missing year starts as an empty dictionary.\<close>

definition table_set ::
  "int \<Rightarrow> nat \<Rightarrow> fl \<Rightarrow> (int \<times> (nat \<times> fl) list) list \<Rightarrow> (int \<times> (nat \<times> fl) list) list" where
  "table_set y m v tbl =
     dict_set y (dict_set m v (case map_of tbl y of None \<Rightarrow> [] | Some months \<Rightarrow> months)) tbl"

text \<open>\<^verbatim>\<open>np.prod\<close> of an array; the product of no values is one.\<close>

fun np_prod :: "fl list \<Rightarrow> fl" where
  "np_prod [] = Fin 1"
| "np_prod (x # xs) = fmul x (np_prod xs)"

text \<open>
  The return table of the monthly returns \<open>mr\<close>: one entry per label; then the entry
  of the first label is replaced by the return of the first month-end price over the first
  daily price; then every year receives, under month 13, the product of one plus each of
  its entries, minus one. The replacing division is carried out by numpy, the divisor
  being a numpy double, so it gives an infinity or not-a-number on a zero price rather
  than raising.
\<close>

definition year_to_date :: "(nat \<times> fl) list \<Rightarrow> fl" where
  "year_to_date months = fsub (np_prod (map (\<lambda>v. fadd v (Fin 1)) (map snd months))) (Fin 1)"

definition return_table :: "series \<Rightarrow> fl \<Rightarrow> fl \<Rightarrow> (int \<times> (nat \<times> fl) list) list" where
  "return_table mr mp0 dp0 =
     (let tbl = fold (\<lambda>(mi, v) tbl. table_set (year mi) (month mi) v tbl) mr [];
          fidx = fst (hd mr);
          tbl = table_set (year fidx) (month fidx) (fsub (fdiv mp0 dp0) (Fin 1)) tbl
      in map (\<lambda>(y, months). (y, dict_set 13 (year_to_date months) months)) tbl)"

text \<open>Helpers for the slices and counts of the function.\<close>

definition vals :: "series \<Rightarrow> fl list" where
  "vals s = map snd s"

definition from_end :: "'a list \<Rightarrow> nat \<Rightarrow> py_error + 'a" where
  "from_end xs k = (if 1 \<le> k \<and> k \<le> length xs then Inr (xs ! (length xs - k)) else Inl IndexError)"

definition upto_label :: "series \<Rightarrow> tstamp \<Rightarrow> series" where
  "upto_label s t = filter (\<lambda>(u, v). ordinal u \<le> ordinal t) s"

definition from_label :: "series \<Rightarrow> tstamp \<Rightarrow> series" where
  "from_label s t = filter (\<lambda>(u, v). ordinal t \<le> ordinal u) s"

definition at_label :: "series \<Rightarrow> tstamp \<Rightarrow> series" where
  "at_label s t = filter (\<lambda>(u, v). ordinal u = ordinal t) s"

definition positive :: "series \<Rightarrow> series" where
  "positive s = filter (\<lambda>(u, v). fgt v (Fin 0)) s"

definition not_positive :: "series \<Rightarrow> series" where
  "not_positive s = filter (\<lambda>(u, v). fle v (Fin 0)) s"

definition has_nonzero :: "series \<Rightarrow> bool" where
  "has_nonzero s = (filter (\<lambda>(u, v). \<not> isnan v \<and> v \<noteq> Fin 0) s \<noteq> [])"

definition lookback :: "series \<Rightarrow> tstamp \<Rightarrow> fl" where
  "lookback daily_price t =
     (let denominator = upto_label daily_price t in
      if 0 < length denominator
      then fsub (fdiv (snd (last daily_price)) (snd (last denominator))) (Fin 1)
      else NaN)"

text \<open>The dictionary as it is first filled.\<close>

definition initial_stats :: "Asset \<Rightarrow> real \<Rightarrow> stats" where
  "initial_stats a yearly_risk_free_return =
     map_of
      [(''name'', Text (symbol a)),
       (''start'', Stamp (hd (index a))),
       (''end'', Stamp (last (index a))),
       (''market_cap'', Num (market_cap a)),
       (''yearly_risk_free_return'', Num (Fin yearly_risk_free_return)),
       (''daily_mean'', Num NaN),
       (''daily_vol'', Num NaN),
       (''daily_sharpe'', Num NaN),
       (''best_day'', Num NaN),
       (''worst_day'', Num NaN),
       (''total_return'', Num NaN),
       (''cagr'', Num NaN),
       (''incep'', Num NaN),
       (''max_drawdown'', Num NaN),
       (''avg_drawdown'', Num NaN),
       (''avg_drawdown_days'', Num NaN),
       (''daily_skew'', Num NaN),
       (''daily_kurt'', Num NaN),
       (''monthly_mean'', Num NaN),
       (''monthly_vol'', Num NaN),
       (''monthly_sharpe'', Num NaN),
       (''best_month'', Num NaN),
       (''worst_month'', Num NaN),
       (''mtd'', Num NaN),
       (''pos_month_perc'', Num NaN),
       (''avg_up_month'', Num NaN),
       (''avg_down_month'', Num NaN),
       (''three_month'', Num NaN),
       (''monthly_skew'', Num NaN),
       (''monthly_kurt'', Num NaN),
       (''six_month'', Num NaN),
       (''ytd'', Num NaN),
       (''one_year'', Num NaN),
       (''yearly_mean'', Num NaN),
       (''yearly_vol'', Num NaN),
       (''yearly_sharpe'', Num NaN),
       (''best_year'', Num NaN),
       (''worst_year'', Num NaN),
       (''three_year'', Num NaN),
       (''win_year_perc'', Num NaN),
       (''twelve_month_win_perc'', Num NaN),
       (''yearly_skew'', Num NaN),
       (''yearly_kurt'', Num NaN),
       (''five_year'', Num NaN),
       (''ten_year'', Num NaN),
       (''return_table'', Table [])]"

text \<open>The entries that need four daily returns.\<close>

definition daily_stats :: "lib \<Rightarrow> fl \<Rightarrow> series \<Rightarrow> series \<Rightarrow> episode list \<Rightarrow> stats \<Rightarrow> stats" where
  "daily_stats l daily_risk_free_return daily_price r info st =
     (let daily_mean = fmul (Fin (DAYS_IN_TRADING_YEAR l)) (mean l (vals r));
          daily_vol = fmul (np_sqrt l (Fin (DAYS_IN_TRADING_YEAR l))) (std l (vals r));
          total_return = fsub (fdiv (snd (last daily_price)) (snd (hd daily_price))) (Fin 1);
          cagr = calc_cagr l daily_price
      in st(''daily_mean'' \<mapsto> Num daily_mean,
            ''daily_vol'' \<mapsto> Num daily_vol,
            ''daily_sharpe'' \<mapsto> Num (fdiv (fsub daily_mean daily_risk_free_return) daily_vol),
            ''best_day'' \<mapsto> Points (at_label r (idxmax l r)),
            ''worst_day'' \<mapsto> Points (at_label r (idxmin l r)),
            ''total_return'' \<mapsto> Num total_return,
            ''ytd'' \<mapsto> Num total_return,
            ''cagr'' \<mapsto> Num cagr,
            ''incep'' \<mapsto> Num cagr,
            ''max_drawdown'' \<mapsto> Num (series_min (map ep_drawdown info)),
            ''avg_drawdown'' \<mapsto> Num (mean l (map ep_drawdown info)),
            ''avg_drawdown_days'' \<mapsto> Num (mean l (map (\<lambda>e. Fin (real_of_int (ep_days e))) info)),
            ''daily_skew'' \<mapsto> Num (skew l (vals r)),
            ''daily_kurt'' \<mapsto> Num (if has_nonzero r then kurt l (vals r) else NaN)))"

text \<open>
  The entries that need two monthly returns; \<open>mp2\<close> is \<^verbatim>\<open>monthly_price[-2]\<close> and \<open>mp0\<close>
  is \<^verbatim>\<open>monthly_price[0]\<close>.
\<close>

definition monthly_stats ::
  "lib \<Rightarrow> fl \<Rightarrow> series \<Rightarrow> series \<Rightarrow> fl \<Rightarrow> fl \<Rightarrow> stats \<Rightarrow> stats" where
  "monthly_stats l monthly_risk_free_return daily_price mr mp2 mp0 st =
     (let monthly_mean = fmul (Fin (MONTHS_IN_YEAR l)) (mean l (vals mr));
          monthly_vol = fmul (np_sqrt l (Fin (MONTHS_IN_YEAR l))) (std l (vals mr))
      in st(''monthly_mean'' \<mapsto> Num monthly_mean,
            ''monthly_vol'' \<mapsto> Num monthly_vol,
            ''monthly_sharpe'' \<mapsto> Num (fdiv (fsub monthly_mean monthly_risk_free_return) monthly_vol),
            ''best_month'' \<mapsto> Points (at_label mr (idxmax l mr)),
            ''worst_month'' \<mapsto> Points (at_label mr (idxmin l mr)),
            ''mtd'' \<mapsto> Num (fsub (fdiv (snd (last daily_price)) mp2) (Fin 1)),
            ''pos_month_perc'' \<mapsto>
               Num (Fin (real (length (positive mr)) / (real (length mr) - 1))),
            ''avg_up_month'' \<mapsto> Num (mean l (vals (positive mr))),
            ''avg_down_month'' \<mapsto> Num (mean l (vals (not_positive mr))),
            ''return_table'' \<mapsto> Table (return_table mr mp0 (snd (hd daily_price)))))"

text \<open>The entries that need four monthly returns.\<close>

definition monthly_shape_stats :: "lib \<Rightarrow> series \<Rightarrow> series \<Rightarrow> stats \<Rightarrow> stats" where
  "monthly_shape_stats l daily_price mr st =
     st(''monthly_skew'' \<mapsto> Num (skew l (vals mr)),
        ''monthly_kurt'' \<mapsto> Num (if has_nonzero mr then kurt l (vals mr) else NaN),
        ''six_month'' \<mapsto> Num (lookback daily_price (minus_months l (fst (last daily_price)) 6)))"

text \<open>The entries that need two yearly returns; \<open>yp2\<close> is \<^verbatim>\<open>yearly_price[-2]\<close>.\<close>

definition yearly_stats ::
  "lib \<Rightarrow> real \<Rightarrow> series \<Rightarrow> series \<Rightarrow> series \<Rightarrow> fl \<Rightarrow> stats \<Rightarrow> stats" where
  "yearly_stats l yearly_risk_free_return daily_price monthly_price yr yp2 st =
     (let yearly_mean = mean l (vals yr);
          yearly_vol = std l (vals yr);
          last_day = fst (last daily_price)
      in st(''ytd'' \<mapsto> Num (fsub (fdiv (snd (last daily_price)) yp2) (Fin 1)),
            ''one_year'' \<mapsto> Num (lookback daily_price (minus_years l last_day 1)),
            ''yearly_mean'' \<mapsto> Num yearly_mean,
            ''yearly_vol'' \<mapsto> Num yearly_vol,
            ''yearly_sharpe'' \<mapsto>
               Num (fdiv (fsub yearly_mean (Fin yearly_risk_free_return)) yearly_vol),
            ''best_year'' \<mapsto> Points (at_label yr (idxmax l yr)),
            ''worst_year'' \<mapsto> Points (at_label yr (idxmin l yr)),
            ''three_year'' \<mapsto> Num (calc_cagr l (from_label daily_price (minus_years l last_day 3))),
            ''win_year_perc'' \<mapsto>
               Num (Fin (real (length (positive yr)) / (real (length yr) - 1))),
            ''twelve_month_win_perc'' \<mapsto>
               Num (fdiv (Fin (real (length (filter (\<lambda>v. fgt v (Fin 0))
                                              (pct_change l 11 (vals monthly_price))))))
                         (Fin (real (length monthly_price) - (MONTHS_IN_YEAR l - 1))))))"

text \<open>The entries that need four yearly returns.\<close>

definition yearly_shape_stats :: "lib \<Rightarrow> series \<Rightarrow> series \<Rightarrow> stats \<Rightarrow> stats" where
  "yearly_shape_stats l daily_price yr st =
     (let last_day = fst (last daily_price)
      in st(''yearly_skew'' \<mapsto> Num (skew l (vals yr)),
            ''yearly_kurt'' \<mapsto> Num (if has_nonzero yr then kurt l (vals yr) else NaN),
            ''five_year'' \<mapsto> Num (calc_cagr l (from_label daily_price (minus_years l last_day 5))),
            ''ten_year'' \<mapsto> Num (calc_cagr l (from_label daily_price (minus_years l last_day 10)))))"

text \<open>
  \<^verbatim>\<open>calc_stats\<close>, returning the dictionary it leaves in \<^verbatim>\<open>self.stats\<close>. It raises where
  \<^verbatim>\<open>daily_price.index[0]\<close> does on an empty series, where \<^verbatim>\<open>drawdown_info\<close> does, and where
  a position counted from the end of a resampled series does not exist.
\<close>

definition monthly_on :: "lib \<Rightarrow> real \<Rightarrow> series \<Rightarrow> series \<Rightarrow> series \<Rightarrow> stats \<Rightarrow> py_error + stats" where
  "monthly_on l yearly_risk_free_return daily_price monthly_price yearly_price st =
     (let monthly_risk_free_return =
            fmul (fsub (np_power l (Fin (1 + yearly_risk_free_return)) (Fin (1 / MONTHS_IN_YEAR l)))
                       (Fin 1)) (Fin (MONTHS_IN_YEAR l));
          mr = calc_returns l monthly_price
      in if length mr < 2 then Inr st
         else
           (case from_end (vals monthly_price) 2 of
              Inl e \<Rightarrow> Inl e
            | Inr mp2 \<Rightarrow>
               (let st = monthly_stats l monthly_risk_free_return daily_price mr mp2
                           (snd (hd monthly_price)) st
                in if length mr < 3 then Inr st
                   else
                     (let st = st(''three_month'' \<mapsto>
                                   Num (lookback daily_price
                                          (minus_months l (fst (last daily_price)) 3)))
                      in if length mr < 4 then Inr st
                         else
                           (let st = monthly_shape_stats l daily_price mr st;
                                yr = calc_returns l yearly_price
                            in if length yr < 2 then Inr st
                               else
                                 (case from_end (vals yearly_price) 2 of
                                    Inl e \<Rightarrow> Inl e
                                  | Inr yp2 \<Rightarrow>
                                     (let st = yearly_stats l yearly_risk_free_return daily_price
                                                 monthly_price yr yp2 st
                                      in if length yr < 4 then Inr st
                                         else Inr (yearly_shape_stats l daily_price yr st))))))))"

definition calc_stats :: "lib \<Rightarrow> Asset \<Rightarrow> real \<Rightarrow> py_error + stats" where
  "calc_stats l a yearly_risk_free_return =
     (let daily_risk_free_return =
            fmul (fsub (np_power l (Fin (1 + yearly_risk_free_return))
                          (Fin (1 / DAYS_IN_TRADING_YEAR l))) (Fin 1))
                 (Fin (DAYS_IN_TRADING_YEAR l));
          daily_price = zip (index a) (close a);
          monthly_price = resample_last l Monthly daily_price;
          yearly_price = resample_last l Annual daily_price
      in if daily_price = [] then Inl IndexError
         else
           (let st = initial_stats a yearly_risk_free_return
            in if length daily_price = 1 then Inr st
               else
                 (let r = calc_returns l daily_price
                  in if length r < 4 then Inr st
                     else
                       (case drawdown_info a of
                          Inl e \<Rightarrow> Inl e
                        | Inr info \<Rightarrow>
                            monthly_on l yearly_risk_free_return daily_price monthly_price
                              yearly_price
                              (daily_stats l daily_risk_free_return daily_price r info st)))))"

text \<open>
  The forty entries of the dictionary that hold a metric; the other six are the name, the
  start, the end, the market capitalisation, the risk-free rate and the return table.
\<close>

definition metric_keys :: "string list" where
  "metric_keys =
     [''daily_mean'', ''daily_vol'', ''daily_sharpe'', ''best_day'', ''worst_day'',
      ''total_return'', ''cagr'', ''incep'', ''max_drawdown'', ''avg_drawdown'',
      ''avg_drawdown_days'', ''daily_skew'', ''daily_kurt'', ''monthly_mean'', ''monthly_vol'',
      ''monthly_sharpe'', ''best_month'', ''worst_month'', ''mtd'', ''pos_month_perc'',
      ''avg_up_month'', ''avg_down_month'', ''three_month'', ''monthly_skew'', ''monthly_kurt'',
      ''six_month'', ''ytd'', ''one_year'', ''yearly_mean'', ''yearly_vol'', ''yearly_sharpe'',
      ''best_year'', ''worst_year'', ''three_year'', ''win_year_perc'',
      ''twelve_month_win_perc'', ''yearly_skew'', ''yearly_kurt'', ''five_year'', ''ten_year'']"

text \<open>
  Modelled from the spec: \<^verbatim>\<open>calc_returns\<close> of \<^verbatim>\<open>compfipy.util\<close> is not among the sources.
  The function above treats its result as a series on the index of the prices whose first
  entry is undefined (it divides the count of positive returns by the length less one,
  ``to ignore first NaN''); the returns are taken to be the relative change from one
  entry to the next. It serves as a concrete \<^verbatim>\<open>calc_returns\<close> where one is needed.
\<close>

definition pct_returns :: "series \<Rightarrow> series" where
  "pct_returns s =
     zip (map fst s) (map2 (\<lambda>x p. fsub (fdiv x p) (Fin 1)) (map snd s) (shift1 (map snd s)))"

text \<open>
  A resampling to the last entry of each calendar month or year that has entries, under
  the label of that entry. On an index without empty periods this is the series of values
  of \<^verbatim>\<open>resample(...).last()\<close>. It serves as a concrete resampling where one is needed.
\<close>

definition same_period :: "freq \<Rightarrow> tstamp \<Rightarrow> tstamp \<Rightarrow> bool" where
  "same_period f t u = (year t = year u \<and> (f = Annual \<or> month t = month u))"

fun period_last :: "freq \<Rightarrow> series \<Rightarrow> series" where
  "period_last f [] = []"
| "period_last f [p] = [p]"
| "period_last f (p # q # ps) =
     (if same_period f (fst p) (fst q) then period_last f (q # ps) else p # period_last f (q # ps))"

text \<open>
  Four daily closes across the end of a month: 10 and 11 in February, 10 and 12 in March.
\<close>

definition stats_demo :: Asset where
  "stats_demo = \<lparr>symbol = ''DEMO'',
     data = [\<lparr>Date = \<lparr>ordinal = 58, year = 2021, month = 2\<rparr>, Open = Fin 10, High = Fin 10, Low = Fin 10, Close = Fin 10, Volume = Fin 1\<rparr>,
             \<lparr>Date = \<lparr>ordinal = 59, year = 2021, month = 2\<rparr>, Open = Fin 11, High = Fin 11, Low = Fin 11, Close = Fin 11, Volume = Fin 1\<rparr>,
             \<lparr>Date = \<lparr>ordinal = 60, year = 2021, month = 3\<rparr>, Open = Fin 10, High = Fin 10, Low = Fin 10, Close = Fin 10, Volume = Fin 1\<rparr>,
             \<lparr>Date = \<lparr>ordinal = 61, year = 2021, month = 3\<rparr>, Open = Fin 12, High = Fin 12, Low = Fin 12, Close = Fin 12, Volume = Fin 1\<rparr>],
     market_cap = Fin 1\<rparr>"

text \<open>A year's dictionary before the year-to-date entry: distinct month keys, none of them 13.\<close>

definition months_ok :: "(nat \<times> fl) list \<Rightarrow> bool" where
  "months_ok months = (distinct (map fst months) \<and> 13 \<notin> fst ` set months)"

section \<open>Parabolic SAR: the loop is the fold\<close>

lemma np_max_larger: "np_max a b = larger a b"
  by (cases a; cases b) (simp_all add: np_max_def max_def)

lemma np_min_smaller: "np_min a b = smaller a b"
  by (cases a; cases b) (simp_all add: np_min_def min_def)

lemma flt_above: "flt a b = above b a"
  by (cases a; cases b) simp_all

lemma fgt_above: "fgt a b = above a b"
  by (simp add: fgt_def flt_above)

lemma feq_larger: "feq (larger e h) h = at_least h e"
  by (cases e; cases h) (auto simp: feq_def at_least_def max_def)

lemma feq_smaller: "feq (smaller e l) l = at_least e l"
  by (cases e; cases l) (auto simp: feq_def at_least_def min_def)

lemmas sar_links = np_max_larger np_min_smaller flt_above fgt_above feq_larger feq_smaller

lemma sar_body_core:
  assumes "i < length bars"
  shows "sar_core (sar_body sr sf mr mf (map High bars) (map Low bars) i v) =
     spec_flip sr sf (spec_advance sr sf mr mf (sar_core v) (bars ! i)) (bars ! i)"
proof (cases "up v")
  case True
  then show ?thesis using assms
    by (simp add: sar_core_def sar_body_def spec_flip_def spec_advance_def Let_def sar_links)
next
  case False
  then show ?thesis using assms
    by (simp add: sar_core_def sar_body_def spec_flip_def spec_advance_def Let_def sar_links)
qed

lemma sar_body_r_sar:
  assumes "i < length bars"
  shows "r_sar (sar_body sr sf mr mf (map High bars) (map Low bars) i v) =
     (if up v then (r_sar v)[i := SAR (spec_advance sr sf mr mf (sar_core v) (bars ! i))] else r_sar v)"
  using assms
  by (cases "up v")
    (simp_all add: sar_core_def sar_body_def spec_advance_def Let_def sar_links)

lemma sar_body_f_sar:
  assumes "i < length bars"
  shows "f_sar (sar_body sr sf mr mf (map High bars) (map Low bars) i v) =
     (if up v then f_sar v else (f_sar v)[i := SAR (spec_advance sr sf mr mf (sar_core v) (bars ! i))])"
  using assms
  by (cases "up v")
    (simp_all add: sar_core_def sar_body_def spec_advance_def Let_def sar_links)

lemma sar_loop_rows:
  assumes "i \<le> length bars" "length (r_sar v) = length bars" "length (f_sar v) = length bars"
    and "\<forall>j. i \<le> j \<and> j < length bars \<longrightarrow> r_sar v ! j = Fin 0 \<and> f_sar v ! j = Fin 0"
  shows "r_sar (fold (sar_body sr sf mr mf (map High bars) (map Low bars)) [i..<length bars] v) =
           take i (r_sar v)
           @ map fst (fold_rows (spec_advance sr sf mr mf) (spec_flip sr sf) (sar_core v) (drop i bars))
       \<and> f_sar (fold (sar_body sr sf mr mf (map High bars) (map Low bars)) [i..<length bars] v) =
           take i (f_sar v)
           @ map snd (fold_rows (spec_advance sr sf mr mf) (spec_flip sr sf) (sar_core v) (drop i bars))"
  using assms
proof (induction "length bars - i" arbitrary: i v)
  case 0
  then show ?case by simp
next
  case (Suc k)
  let ?body = "sar_body sr sf mr mf (map High bars) (map Low bars)"
  let ?rows = "fold_rows (spec_advance sr sf mr mf) (spec_flip sr sf)"
  let ?nx = "?body i v"
  from Suc.hyps(2) have lt: "i < length bars" by simp
  have up: "[i..<length bars] = i # [Suc i..<length bars]"
    using lt by (simp add: upt_conv_Cons)
  have dr: "drop i bars = bars ! i # drop (Suc i) bars"
    using lt by (simp add: Cons_nth_drop_Suc)
  have len1: "length (r_sar ?nx) = length bars" "length (f_sar ?nx) = length bars"
    using lt Suc.prems by (simp_all add: sar_body_r_sar sar_body_f_sar)
  have z1: "\<forall>j. Suc i \<le> j \<and> j < length bars \<longrightarrow> r_sar ?nx ! j = Fin 0 \<and> f_sar ?nx ! j = Fin 0"
    using lt Suc.prems by (simp add: sar_body_r_sar sar_body_f_sar)
  have k: "k = length bars - Suc i" using Suc.hyps(2) by simp
  have ih: "r_sar (fold ?body [Suc i..<length bars] ?nx) =
           take (Suc i) (r_sar ?nx) @ map fst (?rows (sar_core ?nx) (drop (Suc i) bars))
       \<and> f_sar (fold ?body [Suc i..<length bars] ?nx) =
           take (Suc i) (f_sar ?nx) @ map snd (?rows (sar_core ?nx) (drop (Suc i) bars))"
    using Suc.hyps(1)[OF k _ len1 z1] lt by simp
  have tr: "take (Suc i) (r_sar ?nx) = take i (r_sar v) @ [if up v then SAR (spec_advance sr sf mr mf (sar_core v) (bars ! i)) else Fin 0]"
    using lt Suc.prems by (simp add: take_Suc_conv_app_nth sar_body_r_sar)
  have tf: "take (Suc i) (f_sar ?nx) = take i (f_sar v) @ [if up v then Fin 0 else SAR (spec_advance sr sf mr mf (sar_core v) (bars ! i))]"
    using lt Suc.prems by (simp add: take_Suc_conv_app_nth sar_body_f_sar)
  have ur: "is_rising (sar_core v) = up v" by (simp add: sar_core_def)
  show ?case
    unfolding up dr using ih lt
    by (simp add: tr tf Let_def sar_body_core ur del: fold_simps)
qed

lemma overflow_at_gt: "(2 :: real) ^ 1023 < overflow_at"
  by (simp add: overflow_at_def)

lemma rng_Fin:
  assumes "abs r \<le> 2 ^ 1023"
  shows "rng r = Fin r"
proof -
  have "r < overflow_at" "- overflow_at < r"
    using assms overflow_at_gt by linarith+
  then show ?thesis by (simp add: rng_def)
qed

lemma sar_demo_data:
  "data sar_tie = [range_bar 0 (10, 8), range_bar 1 (10, 8)]"
  "data sar_lower = [range_bar 0 (10, 8), range_bar 1 (9, 8)]"
  "data sar_wide = [range_bar 0 (2 ^ 1023, - (2 ^ 1023)), range_bar 1 (2 ^ 1023, - (2 ^ 1023))]"
  "data sar_demo = [range_bar 0 (10, 9), range_bar 1 (11, 8), range_bar 2 (12, 23 / 2)]"
  by (simp_all add: sar_tie_def sar_lower_def sar_wide_def sar_demo_def asset_of_ranges_def
      upt_rec numeral_2_eq_2 numeral_3_eq_3)

text \<open>
  Claim C1, as amended. \<^verbatim>\<open>parabolic_sar(step_r, step_f, max_af_r, max_af_f)\<close> is a
  left-to-right fold over the bars. The fold starts from EP = first high, AF = \<open>step_r\<close>,
  SAR = first low, direction rising. At each later bar, while rising, EP becomes the
  maximum of EP and the high, AF increases by \<open>step_r\<close> when the bar's high is at least
  the previous EP (a high that ties it counts) and is then capped at \<open>max_af_r\<close> on every
  bar, increased or not, and SAR becomes SAR + AF * (EP - SAR); the row of the bar carries
  that SAR in the column of the running direction. The trend flips to falling when SAR
  exceeds the bar's low or its high, and a flip resets SAR to EP and AF to \<open>step_f\<close>; the
  falling direction is symmetric, with the low, the minimum, \<open>step_f\<close>, \<open>max_af_f\<close> and a
  flip when SAR is below the low or the high. An empty frame raises in both. This holds
  for every frame and all values of the four tunables.
\<close>

theorem parabolic_sar_is_fold:
  "parabolic_sar a step_r step_f max_af_r max_af_f = sar_fold step_r step_f max_af_r max_af_f (data a)"
proof (cases "data a")
  case Nil
  then show ?thesis by (simp add: parabolic_sar_def sar_fold_def fold_frame_def high_def)
next
  case (Cons b bs)
  let ?st = "sar_start step_r (high a) (low a)"
  let ?v = "sar_vars_at step_r step_f max_af_r max_af_f (high a) (low a) (length (data a))"
  let ?rows = "fold_rows (spec_advance step_r step_f max_af_r max_af_f) (spec_flip step_r step_f)"
  have c: "sar_core ?st = spec_init step_r b"
    using Cons by (simp add: sar_core_def sar_start_def spec_init_def high_def low_def)
  have one: "1 \<le> length (data a)" using Cons by simp
  have len: "length (r_sar ?st) = length (data a)" "length (f_sar ?st) = length (data a)"
    by (simp_all add: sar_start_def high_def)
  have z: "\<forall>j. 1 \<le> j \<and> j < length (data a) \<longrightarrow> r_sar ?st ! j = Fin 0 \<and> f_sar ?st ! j = Fin 0"
    by (simp add: sar_start_def high_def)
  have t: "take 1 (r_sar ?st) = [Fin 0]" "take 1 (f_sar ?st) = [Fin 0]"
    using Cons by (simp_all add: sar_start_def high_def)
  have d: "drop 1 (data a) = bs" using Cons by simp
  have v: "?v = fold (sar_body step_r step_f max_af_r max_af_f (map High (data a)) (map Low (data a)))
                 [1..<length (data a)] ?st"
    by (simp add: sar_vars_at_def high_def low_def)
  have "r_sar ?v = [Fin 0] @ map fst (?rows (spec_init step_r b) bs)
      \<and> f_sar ?v = [Fin 0] @ map snd (?rows (spec_init step_r b) bs)"
    unfolding v using sar_loop_rows[OF one len z, of step_r step_f max_af_r max_af_f]
    unfolding t d c by blast
  then show ?thesis using Cons
    by (simp add: parabolic_sar_def sar_fold_def fold_frame_def high_def Let_def)
qed

text \<open>
  The claim as worded fails on both counts. On two bars with the same high 10 and low 8,
  with both steps 1/4 and both caps 1, the tie raises AF to 1/2 and the code stores
  8 + 1/2 * 2 = 9 at the second bar, where the claimed rule keeps AF at 1/4 and gives
  17/2. On highs 10, 9 and lows 8, 8, with both steps 1/2 and both caps 1/4, there is no
  new high, yet the code caps AF at 1/4 and stores 17/2, where the claimed rule leaves AF
  at 1/2 and gives 9.
\<close>

theorem parabolic_sar_is_fold_counterexample:
  "parabolic_sar sar_tie (Fin (1 / 4)) (Fin (1 / 4)) (Fin 1) (Fin 1) =
     Inr \<lparr>rising = [Fin 0, Fin 9], falling = [Fin 0, Fin 0]\<rparr>
   \<and> claimed_fold (Fin (1 / 4)) (Fin (1 / 4)) (Fin 1) (Fin 1) (data sar_tie) =
     Inr \<lparr>rising = [Fin 0, Fin (17 / 2)], falling = [Fin 0, Fin 0]\<rparr>
   \<and> parabolic_sar sar_lower (Fin (1 / 2)) (Fin (1 / 2)) (Fin (1 / 4)) (Fin (1 / 4)) =
     Inr \<lparr>rising = [Fin 0, Fin (17 / 2)], falling = [Fin 0, Fin 0]\<rparr>
   \<and> claimed_fold (Fin (1 / 2)) (Fin (1 / 2)) (Fin (1 / 4)) (Fin (1 / 4)) (data sar_lower) =
     Inr \<lparr>rising = [Fin 0, Fin 9], falling = [Fin 0, Fin 0]\<rparr>"
proof -
  have a: "parabolic_sar sar_tie (Fin (1 / 4)) (Fin (1 / 4)) (Fin 1) (Fin 1) =
     Inr \<lparr>rising = [Fin 0, Fin 9], falling = [Fin 0, Fin 0]\<rparr>"
    by (simp add: parabolic_sar_def sar_vars_at_def sar_start_def sar_body_def high_def low_def
        sar_demo_data range_bar_def np_max_def np_min_def feq_def fgt_def dsub_def rng_Fin
        Let_def upt_rec numeral_2_eq_2)
  have b: "claimed_fold (Fin (1 / 4)) (Fin (1 / 4)) (Fin 1) (Fin 1) (data sar_tie) =
     Inr \<lparr>rising = [Fin 0, Fin (17 / 2)], falling = [Fin 0, Fin 0]\<rparr>"
    by (simp add: claimed_fold_def fold_frame_def claimed_advance_def spec_init_def
        sar_demo_data range_bar_def dsub_def rng_Fin Let_def)
  have c: "parabolic_sar sar_lower (Fin (1 / 2)) (Fin (1 / 2)) (Fin (1 / 4)) (Fin (1 / 4)) =
     Inr \<lparr>rising = [Fin 0, Fin (17 / 2)], falling = [Fin 0, Fin 0]\<rparr>"
    by (simp add: parabolic_sar_def sar_vars_at_def sar_start_def sar_body_def high_def low_def
        sar_demo_data range_bar_def np_max_def np_min_def feq_def fgt_def dsub_def rng_Fin
        Let_def upt_rec numeral_2_eq_2)
  have d: "claimed_fold (Fin (1 / 2)) (Fin (1 / 2)) (Fin (1 / 4)) (Fin (1 / 4)) (data sar_lower) =
     Inr \<lparr>rising = [Fin 0, Fin 9], falling = [Fin 0, Fin 0]\<rparr>"
    by (simp add: claimed_fold_def fold_frame_def claimed_advance_def spec_init_def
        sar_demo_data range_bar_def dsub_def rng_Fin Let_def)
  show ?thesis using a b c d by blast
qed

section \<open>Parabolic SAR: one column per bar\<close>

lemma mag_le_iff: "mag_le B x = (\<exists>r. x = Fin r \<and> abs r \<le> B)"
  by (cases x) simp_all

lemma nonneg_fin_iff: "nonneg_fin x = (\<exists>r. x = Fin r \<and> 0 \<le> r)"
  by (cases x) simp_all

lemma in_band_iff: "in_band lo hi x = (\<exists>r. x = Fin r \<and> lo \<le> r \<and> r \<le> hi)"
  by (cases x) simp_all

lemma mag_le_finite: "mag_le B x \<Longrightarrow> is_finite x"
  by (cases x) simp_all

lemma sar_move_bounded:
  fixes a e s B :: real
  assumes "abs e \<le> B" "abs s \<le> B" "0 \<le> a" "a \<le> 1" "B = 2 ^ 1022"
  shows "dadd (Fin s) (dmul (Fin a) (dsub (Fin e) (Fin s))) = Fin (s + a * (e - s))
       \<and> abs (s + a * (e - s)) \<le> B"
proof -
  have B2: "2 * B = 2 ^ 1023" using assms(5) by simp
  have d: "abs (e - s) \<le> 2 ^ 1023" using assms(1,2) B2 by linarith
  have "abs (a * (e - s)) = a * abs (e - s)" using assms(3) by (simp add: abs_mult)
  also have "\<dots> \<le> 1 * abs (e - s)" using assms(4) by (intro mult_right_mono) simp_all
  finally have p: "abs (a * (e - s)) \<le> 2 ^ 1023" using d by simp
  have u1: "(1 - a) * s \<le> (1 - a) * B" using assms(2,4) by (intro mult_left_mono) simp_all
  have u2: "a * e \<le> a * B" using assms(1,3) by (intro mult_left_mono) simp_all
  have l1: "(1 - a) * (- B) \<le> (1 - a) * s" using assms(2,4) by (intro mult_left_mono) simp_all
  have l2: "a * (- B) \<le> a * e" using assms(1,3) by (intro mult_left_mono) simp_all
  have eq: "s + a * (e - s) = (1 - a) * s + a * e" by (simp add: algebra_simps)
  have sB: "(1 - a) * B + a * B = B" by (simp add: algebra_simps)
  have nB: "(1 - a) * (- B) + a * (- B) = - B" by (simp add: algebra_simps)
  have r: "abs (s + a * (e - s)) \<le> B"
    unfolding eq using u1 u2 l1 l2 sB nB by linarith
  have B0: "B \<le> 2 ^ 1023" using B2 assms(1) by linarith
  have r2: "abs (s + a * (e - s)) \<le> 2 ^ 1023" using r B0 by linarith
  show ?thesis using d p r r2 by (simp add: dsub_def rng_Fin)
qed

lemma af_move_bounded:
  fixes a st m :: real
  assumes "0 \<le> a" "0 \<le> st" "0 \<le> m" "m \<le> 1"
  shows "\<exists>r. smaller (if c then dadd (Fin a) (Fin st) else Fin a) (Fin m) = Fin r
            \<and> 0 \<le> r \<and> r \<le> 1"
proof (cases c)
  case True
  have "- overflow_at < a + st" using assms(1,2) overflow_at_gt
    by (smt (verit) zero_less_power)
  then have "rng (a + st) = PInf \<or> rng (a + st) = Fin (a + st)"
    by (simp add: rng_def)
  then show ?thesis using True assms by (auto simp: min_def)
next
  case False
  then show ?thesis using assms by (auto simp: min_def)
qed

lemma spec_advance_rising:
  assumes "is_rising s"
  shows "spec_advance sr sf mr mf s b =
     s\<lparr>EP := larger (EP s) (High b),
       AF := smaller (if at_least (High b) (EP s) then dadd (AF s) sr else AF s) mr,
       SAR := dadd (SAR s)
                (dmul (smaller (if at_least (High b) (EP s) then dadd (AF s) sr else AF s) mr)
                      (dsub (larger (EP s) (High b)) (SAR s)))\<rparr>"
  using assms by (simp add: spec_advance_def Let_def)

lemma spec_advance_falling:
  assumes "\<not> is_rising s"
  shows "spec_advance sr sf mr mf s b =
     s\<lparr>EP := smaller (EP s) (Low b),
       AF := smaller (if at_least (EP s) (Low b) then dadd (AF s) sf else AF s) mf,
       SAR := dadd (SAR s)
                (dmul (smaller (if at_least (EP s) (Low b) then dadd (AF s) sf else AF s) mf)
                      (dsub (smaller (EP s) (Low b)) (SAR s)))\<rparr>"
  using assms by (simp add: spec_advance_def Let_def)

lemma spec_advance_bounded:
  assumes "mag_le (2 ^ 1022) (EP s)" "mag_le (2 ^ 1022) (SAR s)" "nonneg_fin (AF s)"
    and "mag_le (2 ^ 1022) (High b)" "mag_le (2 ^ 1022) (Low b)"
    and "nonneg_fin sr" "nonneg_fin sf" "in_band 0 1 mr" "in_band 0 1 mf"
  shows "mag_le (2 ^ 1022) (EP (spec_advance sr sf mr mf s b))
       \<and> mag_le (2 ^ 1022) (SAR (spec_advance sr sf mr mf s b))
       \<and> nonneg_fin (AF (spec_advance sr sf mr mf s b))"
proof -
  from assms obtain e0 s0 a0 h l where
    v: "EP s = Fin e0" "SAR s = Fin s0" "AF s = Fin a0" "High b = Fin h" "Low b = Fin l"
    and bd: "abs e0 \<le> 2 ^ 1022" "abs s0 \<le> 2 ^ 1022" "0 \<le> a0" "abs h \<le> 2 ^ 1022"
      "abs l \<le> 2 ^ 1022"
    unfolding mag_le_iff nonneg_fin_iff by blast
  from assms obtain r f mr0 mf0 where
    t: "sr = Fin r" "sf = Fin f" "mr = Fin mr0" "mf = Fin mf0"
    and tb: "0 \<le> r" "0 \<le> f" "0 \<le> mr0" "mr0 \<le> 1" "0 \<le> mf0" "mf0 \<le> 1"
    unfolding in_band_iff nonneg_fin_iff by blast
  show ?thesis
  proof (cases "is_rising s")
    case True
    obtain a where a: "smaller (if at_least (Fin h) (Fin e0) then dadd (Fin a0) (Fin r) else Fin a0) (Fin mr0) = Fin a"
      and ab: "0 \<le> a" "a \<le> 1"
      using af_move_bounded[OF bd(3) tb(1) tb(3) tb(4)] by blast
    have e: "abs (max e0 h) \<le> 2 ^ 1022" using bd by (simp add: max_def)
    have m: "dadd (Fin s0) (dmul (Fin a) (dsub (Fin (max e0 h)) (Fin s0))) = Fin (s0 + a * (max e0 h - s0))"
      "abs (s0 + a * (max e0 h - s0)) \<le> 2 ^ 1022"
      using sar_move_bounded[OF e bd(2) ab refl] by simp_all
    have adv: "spec_advance sr sf mr mf s b =
        s\<lparr>EP := Fin (max e0 h), AF := Fin a, SAR := Fin (s0 + a * (max e0 h - s0))\<rparr>"
      unfolding spec_advance_rising[OF True] v t larger.simps a m(1) by (rule refl)
    show ?thesis unfolding adv using e ab m(2) by simp
  next
    case False
    obtain a where a: "smaller (if at_least (Fin e0) (Fin l) then dadd (Fin a0) (Fin f) else Fin a0) (Fin mf0) = Fin a"
      and ab: "0 \<le> a" "a \<le> 1"
      using af_move_bounded[OF bd(3) tb(2) tb(5) tb(6)] by blast
    have e: "abs (min e0 l) \<le> 2 ^ 1022" using bd by (simp add: min_def)
    have m: "dadd (Fin s0) (dmul (Fin a) (dsub (Fin (min e0 l)) (Fin s0))) = Fin (s0 + a * (min e0 l - s0))"
      "abs (s0 + a * (min e0 l - s0)) \<le> 2 ^ 1022"
      using sar_move_bounded[OF e bd(2) ab refl] by simp_all
    have adv: "spec_advance sr sf mr mf s b =
        s\<lparr>EP := Fin (min e0 l), AF := Fin a, SAR := Fin (s0 + a * (min e0 l - s0))\<rparr>"
      unfolding spec_advance_falling[OF False] v t smaller.simps a m(1) by (rule refl)
    show ?thesis unfolding adv using e ab m(2) by simp
  qed
qed

lemma spec_flip_bounded:
  assumes "mag_le B (EP s)" "mag_le B (SAR s)" "nonneg_fin (AF s)" "nonneg_fin sr" "nonneg_fin sf"
  shows "mag_le B (EP (spec_flip sr sf s b)) \<and> mag_le B (SAR (spec_flip sr sf s b))
       \<and> nonneg_fin (AF (spec_flip sr sf s b))"
  using assms by (simp add: spec_flip_def)

lemma sar_vars_at_Suc:
  assumes "1 \<le> k"
  shows "sar_vars_at sr sf mr mf hs ls (Suc k) = sar_body sr sf mr mf hs ls k (sar_vars_at sr sf mr mf hs ls k)"
  using assms by (simp add: sar_vars_at_def)

lemma sar_vars_at_shape:
  fixes bars :: "bar list"
  assumes "1 \<le> k" "k \<le> length bars"
  shows "length (r_sar (sar_vars_at sr sf mr mf (map High bars) (map Low bars) k)) = length bars
       \<and> length (f_sar (sar_vars_at sr sf mr mf (map High bars) (map Low bars) k)) = length bars
       \<and> (\<forall>j. (k \<le> j \<or> j = 0) \<and> j < length bars \<longrightarrow>
             r_sar (sar_vars_at sr sf mr mf (map High bars) (map Low bars) k) ! j = Fin 0
           \<and> f_sar (sar_vars_at sr sf mr mf (map High bars) (map Low bars) k) ! j = Fin 0)"
  using assms
proof (induction k rule: dec_induct)
  case base
  then show ?case by (simp add: sar_vars_at_def sar_start_def)
next
  case (step k)
  then have lt: "k < length bars" by simp
  from step have ih: "length (r_sar (sar_vars_at sr sf mr mf (map High bars) (map Low bars) k)) = length bars
       \<and> length (f_sar (sar_vars_at sr sf mr mf (map High bars) (map Low bars) k)) = length bars
       \<and> (\<forall>j. (k \<le> j \<or> j = 0) \<and> j < length bars \<longrightarrow>
             r_sar (sar_vars_at sr sf mr mf (map High bars) (map Low bars) k) ! j = Fin 0
           \<and> f_sar (sar_vars_at sr sf mr mf (map High bars) (map Low bars) k) ! j = Fin 0)"
    by simp
  show ?case
    unfolding sar_vars_at_Suc[OF step.hyps(1)] using ih lt step.hyps(1)
    by (auto simp: sar_body_r_sar sar_body_f_sar)
qed

lemma sar_vars_at_bounded:
  fixes bars :: "bar list"
  assumes "\<forall>b \<in> set bars. mag_le (2 ^ 1022) (High b) \<and> mag_le (2 ^ 1022) (Low b)"
    and "nonneg_fin sr" "nonneg_fin sf" "in_band 0 1 mr" "in_band 0 1 mf"
    and "1 \<le> k" "k \<le> length bars"
  shows "mag_le (2 ^ 1022) (EP (sar_core (sar_vars_at sr sf mr mf (map High bars) (map Low bars) k)))
       \<and> mag_le (2 ^ 1022) (SAR (sar_core (sar_vars_at sr sf mr mf (map High bars) (map Low bars) k)))
       \<and> nonneg_fin (AF (sar_core (sar_vars_at sr sf mr mf (map High bars) (map Low bars) k)))"
  using assms(6,7)
proof (induction k rule: dec_induct)
  case base
  have "bars ! 0 \<in> set bars" using base by (simp add: Suc_le_eq)
  then have "mag_le (2 ^ 1022) (High (bars ! 0))" "mag_le (2 ^ 1022) (Low (bars ! 0))"
    using assms(1) by blast+
  then show ?case using assms(2) base
    by (simp add: sar_vars_at_def sar_start_def sar_core_def Suc_le_eq)
next
  case (step k)
  then have lt: "k < length bars" by simp
  then have b: "mag_le (2 ^ 1022) (High (bars ! k))" "mag_le (2 ^ 1022) (Low (bars ! k))"
    using assms(1) by simp_all
  from step lt have ih:
    "mag_le (2 ^ 1022) (EP (sar_core (sar_vars_at sr sf mr mf (map High bars) (map Low bars) k)))"
    "mag_le (2 ^ 1022) (SAR (sar_core (sar_vars_at sr sf mr mf (map High bars) (map Low bars) k)))"
    "nonneg_fin (AF (sar_core (sar_vars_at sr sf mr mf (map High bars) (map Low bars) k)))"
    by simp_all
  have adv: "mag_le (2 ^ 1022) (EP (spec_advance sr sf mr mf (sar_core (sar_vars_at sr sf mr mf (map High bars) (map Low bars) k)) (bars ! k)))"
    "mag_le (2 ^ 1022) (SAR (spec_advance sr sf mr mf (sar_core (sar_vars_at sr sf mr mf (map High bars) (map Low bars) k)) (bars ! k)))"
    "nonneg_fin (AF (spec_advance sr sf mr mf (sar_core (sar_vars_at sr sf mr mf (map High bars) (map Low bars) k)) (bars ! k)))"
    using spec_advance_bounded[OF ih b assms(2,3,4,5)] by simp_all
  show ?case
    unfolding sar_vars_at_Suc[OF step.hyps(1)] sar_body_core[OF lt]
    using spec_flip_bounded[OF adv assms(2,3)] by simp
qed

lemma sar_cols_stable:
  fixes bars :: "bar list"
  assumes "1 \<le> j" "Suc j \<le> k" "k \<le> length bars"
  shows "r_sar (sar_vars_at sr sf mr mf (map High bars) (map Low bars) k) ! j =
         r_sar (sar_vars_at sr sf mr mf (map High bars) (map Low bars) (Suc j)) ! j
       \<and> f_sar (sar_vars_at sr sf mr mf (map High bars) (map Low bars) k) ! j =
         f_sar (sar_vars_at sr sf mr mf (map High bars) (map Low bars) (Suc j)) ! j"
  using assms(2,3)
proof (induction k rule: dec_induct)
  case base
  show ?case by simp
next
  case (step k)
  then have lt: "k < length bars" and one: "1 \<le> k" and ne: "k \<noteq> j"
    using assms(1) by simp_all
  show ?case
    unfolding sar_vars_at_Suc[OF one] using step lt ne
    by (simp add: sar_body_r_sar sar_body_f_sar)
qed

lemma sar_cols_written:
  fixes bars :: "bar list"
  assumes "1 \<le> i" "i < length bars"
  shows "(let v = sar_vars_at sr sf mr mf (map High bars) (map Low bars) i;
              s = SAR (spec_advance sr sf mr mf (sar_core v) (bars ! i));
              w = sar_vars_at sr sf mr mf (map High bars) (map Low bars) (Suc i)
          in if up v then r_sar w ! i = s \<and> f_sar w ! i = Fin 0
             else f_sar w ! i = s \<and> r_sar w ! i = Fin 0)"
proof -
  have le: "i \<le> length bars" using assms by simp
  show ?thesis
    unfolding sar_vars_at_Suc[OF assms(1)] Let_def
    using sar_vars_at_shape[OF assms(1) le, of sr sf mr mf] assms(2)
    by (simp add: sar_body_r_sar sar_body_f_sar)
qed

text \<open>
  Claim C10, as amended. For every non-empty frame and all values of the tunables, at
  every bar \<open>i \<ge> 1\<close> the column of the phase that is not active on entry to the bar holds
  exactly zero, and at every bar, the first included, at least one of the two columns is
  zero, so no bar carries a stop value in both. The stop value in the column of the
  active phase is finite when every high and every low is a finite number of magnitude
  at most \<open>2 ^ 1022\<close>, the two steps are finite and not negative, and the two caps lie
  between 0 and 1.
\<close>

theorem parabolic_sar_one_column:
  assumes "i < length (data a)"
  shows "\<exists>res. parabolic_sar a step_r step_f max_af_r max_af_f = Inr res
     \<and> (1 \<le> i \<longrightarrow>
          (if up (sar_vars_at step_r step_f max_af_r max_af_f (high a) (low a) i)
           then falling res ! i = Fin 0 else rising res ! i = Fin 0))
     \<and> (rising res ! i = Fin 0 \<or> falling res ! i = Fin 0)
     \<and> (1 \<le> i \<and> (\<forall>b \<in> set (data a). mag_le (2 ^ 1022) (High b) \<and> mag_le (2 ^ 1022) (Low b))
          \<and> nonneg_fin step_r \<and> nonneg_fin step_f
          \<and> in_band 0 1 max_af_r \<and> in_band 0 1 max_af_f \<longrightarrow>
          (if up (sar_vars_at step_r step_f max_af_r max_af_f (high a) (low a) i)
           then is_finite (rising res ! i) else is_finite (falling res ! i)))"
proof -
  let ?V = "sar_vars_at step_r step_f max_af_r max_af_f (map High (data a)) (map Low (data a))"
  let ?n = "length (data a)"
  let ?res = "\<lparr>rising = r_sar (?V ?n), falling = f_sar (?V ?n)\<rparr>"
  let ?s = "SAR (spec_advance step_r step_f max_af_r max_af_f (sar_core (?V i)) (data a ! i))"
  have ne: "high a \<noteq> []" using assms by (auto simp: high_def)
  have res: "parabolic_sar a step_r step_f max_af_r max_af_f = Inr ?res"
    using ne by (simp add: parabolic_sar_def Let_def high_def low_def)
  have n1: "1 \<le> ?n" using assms by simp
  have zero: "i = 0 \<Longrightarrow> r_sar (?V ?n) ! i = Fin 0 \<and> f_sar (?V ?n) ! i = Fin 0"
    using sar_vars_at_shape[OF n1 order_refl, of step_r step_f max_af_r max_af_f] assms by simp
  have cols: "(if up (?V i) then r_sar (?V ?n) ! i = ?s \<and> f_sar (?V ?n) ! i = Fin 0
               else f_sar (?V ?n) ! i = ?s \<and> r_sar (?V ?n) ! i = Fin 0)" if i1: "1 \<le> i"
  proof -
    have sle: "Suc i \<le> ?n" using assms by simp
    show ?thesis
      using sar_cols_stable[OF i1 sle order_refl, of step_r step_f max_af_r max_af_f]
        sar_cols_written[OF i1 assms, of step_r step_f max_af_r max_af_f]
      by (simp add: Let_def split: if_splits)
  qed
  have inactive: "1 \<le> i \<longrightarrow>
      (if up (?V i) then f_sar (?V ?n) ! i = Fin 0 else r_sar (?V ?n) ! i = Fin 0)"
    using cols by (simp split: if_splits)
  have both: "r_sar (?V ?n) ! i = Fin 0 \<or> f_sar (?V ?n) ! i = Fin 0"
  proof (cases "i = 0")
    case True
    then show ?thesis using zero by simp
  next
    case False
    then have "1 \<le> i" by simp
    then show ?thesis using cols by (simp split: if_splits)
  qed
  have active: "(if up (?V i) then is_finite (r_sar (?V ?n) ! i) else is_finite (f_sar (?V ?n) ! i))"
    if i1: "1 \<le> i"
      and bd: "\<forall>b \<in> set (data a). mag_le (2 ^ 1022) (High b) \<and> mag_le (2 ^ 1022) (Low b)"
      and tn: "nonneg_fin step_r" "nonneg_fin step_f" "in_band 0 1 max_af_r" "in_band 0 1 max_af_f"
  proof -
    have le: "i \<le> ?n" using assms by simp
    have b: "mag_le (2 ^ 1022) (High (data a ! i))" "mag_le (2 ^ 1022) (Low (data a ! i))"
      using bd assms by simp_all
    have inv: "mag_le (2 ^ 1022) (EP (sar_core (?V i)))" "mag_le (2 ^ 1022) (SAR (sar_core (?V i)))"
      "nonneg_fin (AF (sar_core (?V i)))"
      using sar_vars_at_bounded[OF bd tn i1 le] by simp_all
    have "mag_le (2 ^ 1022) ?s"
      using spec_advance_bounded[OF inv b tn] by simp
    then have "is_finite ?s" by (rule mag_le_finite)
    then show ?thesis using cols[OF i1] by (simp split: if_splits)
  qed
  show ?thesis
    using res inactive both active by (simp add: high_def low_def)
qed

text \<open>
  The theorem at the third bar of the three-bar frame, where the falling phase is active.
\<close>

theorem parabolic_sar_one_column_witness:
  "2 < length (data sar_demo)
   \<and> list_all (\<lambda>b. mag_le (2 ^ 1022) (High b) \<and> mag_le (2 ^ 1022) (Low b)) (data sar_demo)
   \<and> nonneg_fin (Fin 0.02) \<and> in_band 0 1 (Fin 0.2)
   \<and> \<not> up (sar_vars_at (Fin 0.02) (Fin 0.02) (Fin 0.2) (Fin 0.2) (high sar_demo) (low sar_demo) 2)
   \<and> (\<exists>res. parabolic_sar sar_demo (Fin 0.02) (Fin 0.02) (Fin 0.2) (Fin 0.2) = Inr res
        \<and> is_finite (falling res ! 2) \<and> rising res ! 2 = Fin 0)"
proof -
  have h: "\<forall>b \<in> set (data sar_demo). mag_le (2 ^ 1022) (High b) \<and> mag_le (2 ^ 1022) (Low b)"
    by (simp add: sar_demo_data range_bar_def)
  have l: "2 < length (data sar_demo)" by (simp add: sar_demo_data)
  have d: "\<not> up (sar_vars_at (Fin 0.02) (Fin 0.02) (Fin 0.2) (Fin 0.2) (high sar_demo) (low sar_demo) 2)"
    by (simp add: sar_demo_data range_bar_def sar_vars_at_def sar_start_def sar_body_def
        high_def low_def np_max_def np_min_def feq_def dsub_def fgt_def rng_Fin Let_def
        upt_rec numeral_2_eq_2)
  show ?thesis
    using parabolic_sar_one_column[OF l, of "Fin 0.02" "Fin 0.02" "Fin 0.2" "Fin 0.2"] h l d
    by (auto simp: list_all_iff)
qed

text \<open>
  The claim as worded, finite highs and lows alone, fails. On two bars with high
  \<open>2 ^ 1023\<close> and low \<open>- 2 ^ 1023\<close>, with the default tunables, EP - SAR is \<open>2 ^ 1024\<close>,
  beyond the largest double, so the rising phase, active at the second bar, stores an
  infinite stop value. On two ordinary bars with high 10 and low 8, with steps and caps
  \<open>2 ^ 1023\<close>, the capped AF times EP - SAR is \<open>2 ^ 1024\<close>, and the stop value is infinite
  again.
\<close>

theorem parabolic_sar_one_column_counterexample:
  "list_all (\<lambda>b. is_finite (High b) \<and> is_finite (Low b)) (data sar_wide)
   \<and> up (sar_vars_at (Fin 0.02) (Fin 0.02) (Fin 0.2) (Fin 0.2) (high sar_wide) (low sar_wide) 1)
   \<and> parabolic_sar sar_wide (Fin 0.02) (Fin 0.02) (Fin 0.2) (Fin 0.2) =
       Inr \<lparr>rising = [Fin 0, PInf], falling = [Fin 0, Fin 0]\<rparr>
   \<and> list_all (\<lambda>b. is_finite (High b) \<and> is_finite (Low b)) (data sar_tie)
   \<and> up (sar_vars_at (Fin (2 ^ 1023)) (Fin (2 ^ 1023)) (Fin (2 ^ 1023)) (Fin (2 ^ 1023))
           (high sar_tie) (low sar_tie) 1)
   \<and> parabolic_sar sar_tie (Fin (2 ^ 1023)) (Fin (2 ^ 1023)) (Fin (2 ^ 1023)) (Fin (2 ^ 1023)) =
       Inr \<lparr>rising = [Fin 0, PInf], falling = [Fin 0, Fin 0]\<rparr>"
proof -
  have big: "rng (2 * 2 ^ 1023) = PInf" "rng (2 ^ 1023 * 2) = PInf"
    "rng (2 ^ 1023 + 2 ^ 1023) = PInf" "rng 2 = Fin 2" "rng (1 / 25) = Fin (1 / 25)"
    by (simp_all add: rng_def overflow_at_def)
  have f: "list_all (\<lambda>b. is_finite (High b) \<and> is_finite (Low b)) (data sar_wide)"
    "list_all (\<lambda>b. is_finite (High b) \<and> is_finite (Low b)) (data sar_tie)"
    by (simp_all add: sar_demo_data range_bar_def)
  have u: "up (sar_vars_at (Fin 0.02) (Fin 0.02) (Fin 0.2) (Fin 0.2) (high sar_wide) (low sar_wide) 1)"
    "up (sar_vars_at (Fin (2 ^ 1023)) (Fin (2 ^ 1023)) (Fin (2 ^ 1023)) (Fin (2 ^ 1023))
           (high sar_tie) (low sar_tie) 1)"
    by (simp_all add: sar_vars_at_def sar_start_def)
  have w: "parabolic_sar sar_wide (Fin 0.02) (Fin 0.02) (Fin 0.2) (Fin 0.2) =
       Inr \<lparr>rising = [Fin 0, PInf], falling = [Fin 0, Fin 0]\<rparr>"
    unfolding parabolic_sar_def sar_vars_at_def sar_start_def sar_body_def high_def low_def
      sar_demo_data range_bar_def Let_def
    by (simp add: np_max_def np_min_def feq_def dsub_def fgt_def big
        upt_rec numeral_2_eq_2 del: power_numeral)
  have t: "parabolic_sar sar_tie (Fin (2 ^ 1023)) (Fin (2 ^ 1023)) (Fin (2 ^ 1023)) (Fin (2 ^ 1023)) =
       Inr \<lparr>rising = [Fin 0, PInf], falling = [Fin 0, Fin 0]\<rparr>"
    unfolding parabolic_sar_def sar_vars_at_def sar_start_def sar_body_def high_def low_def
      sar_demo_data range_bar_def Let_def
    by (simp add: np_max_def np_min_def feq_def dsub_def fgt_def big
        upt_rec numeral_2_eq_2 del: power_numeral)
  show ?thesis using f u w t by blast
qed

section \<open>Relative Strength Index: range and the zero-loss case\<close>

lemma not_negative_iff: "not_negative x = (isnan x \<or> x = PInf \<or> nonneg_fin x)"
  by (cases x) simp_all

lemma rng_not_negative: "0 \<le> r \<Longrightarrow> rng r = PInf \<or> rng r = Fin r"
  using overflow_at_gt by (simp add: rng_def)

lemma not_negative_rng: "0 \<le> r \<Longrightarrow> not_negative (rng r)"
  using rng_not_negative[of r] by auto

lemma shift1_nth:
  assumes "1 \<le> i" "i < length xs"
  shows "shift1 xs ! i = xs ! (i - 1)"
proof -
  from assms obtain j where j: "i = Suc j" by (cases i) auto
  then show ?thesis using assms by (auto simp: shift1_def nth_butlast)
qed

lemma length_shift1: "length (shift1 xs) = length xs"
  by (simp add: shift1_def)

lemma length_rsi_gain: "length (rsi_gain cl) = length cl"
  by (simp add: rsi_gain_def rsi_change_def length_shift1)

lemma length_rsi_loss: "length (rsi_loss cl) = length cl"
  by (simp add: rsi_loss_def rsi_change_def length_shift1)

lemma length_rsi_change: "length (rsi_change cl) = length cl"
  by (simp add: rsi_change_def length_shift1)

lemma rsi_change_nth:
  assumes "1 \<le> i" "i < length cl"
  shows "rsi_change cl ! i = dsub (cl ! i) (cl ! (i - 1))"
  using assms by (simp add: rsi_change_def length_shift1 shift1_nth)

lemma rsi_change_0:
  assumes "0 < length cl"
  shows "rsi_change cl ! 0 = NaN"
proof -
  have "shift1 cl ! 0 = NaN" using assms by (simp add: shift1_def)
  then show ?thesis using assms
    by (cases "cl ! 0") (simp_all add: rsi_change_def length_shift1 dsub_def)
qed

lemma rsi_gain_0: "0 < length cl \<Longrightarrow> rsi_gain cl ! 0 = NaN"
  by (simp add: rsi_gain_def rsi_change_0 length_rsi_change)

lemma rsi_loss_0: "0 < length cl \<Longrightarrow> rsi_loss cl ! 0 = NaN"
  by (simp add: rsi_loss_def rsi_change_0 length_rsi_change fgt_def)

subsection \<open>The averages are never negative\<close>

lemma gain_clip_not_negative: "not_negative (if flt c (Fin 0) then Fin 0 else c)"
  by (cases c) simp_all

lemma loss_clip_not_negative:
  "not_negative (dmul (Fin (- 1)) (if fgt c (Fin 0) then Fin 0 else c))"
proof (cases c)
  case (Fin r)
  show ?thesis
  proof (cases "0 < r")
    case True
    then show ?thesis using Fin by (simp add: fgt_def not_negative_rng)
  next
    case False
    then show ?thesis using Fin by (simp add: fgt_def not_negative_rng)
  qed
qed (simp_all add: fgt_def not_negative_rng)

lemma rsi_gain_not_negative: "\<forall>x \<in> set (rsi_gain cl). not_negative x"
  by (simp only: rsi_gain_def set_map ball_simps gain_clip_not_negative simp_thms) simp

lemma rsi_loss_not_negative: "\<forall>x \<in> set (rsi_loss cl). not_negative x"
  by (simp only: rsi_loss_def map_map comp_def set_map ball_simps loss_clip_not_negative simp_thms) simp

lemma dadd_not_negative:
  assumes "not_negative x" "not_negative y"
  shows "not_negative (dadd x y)"
  using assms by (cases x; cases y) (simp_all add: not_negative_rng)

lemma ddiv_not_negative:
  assumes "not_negative x" "1 \<le> n"
  shows "not_negative (ddiv x (Fin (real n)))"
  using assms by (cases x) (simp_all add: not_negative_rng)

lemma dmul_not_negative:
  assumes "not_negative x" "1 \<le> n"
  shows "not_negative (dmul (Fin (real n - 1)) x)"
  using assms by (cases x) (simp_all add: not_negative_rng Let_def)

lemma series_sum_not_negative:
  assumes "\<forall>x \<in> set xs. not_negative x"
  shows "not_negative (series_sum xs)"
  using assms by (induction xs) (simp_all add: dadd_not_negative)

lemma smooth_not_negative:
  assumes "not_negative p" "not_negative x" "1 \<le> n"
  shows "not_negative (dadd (dmul (Fin (real n - 1)) (ddiv p (Fin (real n)))) (ddiv x (Fin (real n))))"
  using assms by (intro dadd_not_negative dmul_not_negative ddiv_not_negative)

lemma rsi_avgs_at_Suc:
  assumes "n < k"
  shows "rsi_avgs_at n gain loss (Suc k) = rsi_body n gain loss k (rsi_avgs_at n gain loss k)"
  using assms by (simp add: rsi_avgs_at_def)

lemma rsi_avgs_at_length:
  assumes "Suc n \<le> k"
  shows "length (avg_gain (rsi_avgs_at n gain loss k)) = length gain
       \<and> length (avg_loss (rsi_avgs_at n gain loss k)) = length loss"
  using assms
proof (induction k rule: dec_induct)
  case base
  show ?case by (simp add: rsi_avgs_at_def rsi_seed_def)
next
  case (step k)
  then have nk: "n < k" by simp
  show ?case unfolding rsi_avgs_at_Suc[OF nk] using step
    by (simp add: rsi_body_def Let_def)
qed

lemma rsi_avgs_at_stable:
  assumes "Suc j \<le> k" "Suc n \<le> Suc j"
  shows "avg_gain (rsi_avgs_at n gain loss k) ! j = avg_gain (rsi_avgs_at n gain loss (Suc j)) ! j
       \<and> avg_loss (rsi_avgs_at n gain loss k) ! j = avg_loss (rsi_avgs_at n gain loss (Suc j)) ! j"
  using assms(1)
proof (induction k rule: dec_induct)
  case base
  show ?case by simp
next
  case (step k)
  then have nk: "n < k" and ne: "k \<noteq> j" using assms(2) by simp_all
  show ?case unfolding rsi_avgs_at_Suc[OF nk] using step ne
    by (simp add: rsi_body_def Let_def)
qed

lemma rsi_avgs_at_inv:
  assumes "P (ddiv (series_sum (take n gain)) (Fin (real n)))"
    and "P (ddiv (series_sum (take n loss)) (Fin (real n)))"
    and "\<And>p i. P p \<Longrightarrow> n < i \<Longrightarrow> i < length gain \<Longrightarrow>
           P (dadd (dmul (Fin (real n - 1)) (ddiv p (Fin (real n)))) (ddiv (gain ! i) (Fin (real n))))"
    and "\<And>p i. P p \<Longrightarrow> n < i \<Longrightarrow> i < length gain \<Longrightarrow>
           P (dadd (dmul (Fin (real n - 1)) (ddiv p (Fin (real n)))) (ddiv (loss ! i) (Fin (real n))))"
    and "length loss = length gain" "Suc n \<le> k" "k \<le> length gain"
  shows "length (avg_gain (rsi_avgs_at n gain loss k)) = length gain
       \<and> length (avg_loss (rsi_avgs_at n gain loss k)) = length gain
       \<and> (\<forall>j. n \<le> j \<and> j < k \<longrightarrow>
             P (avg_gain (rsi_avgs_at n gain loss k) ! j)
           \<and> P (avg_loss (rsi_avgs_at n gain loss k) ! j))"
  using assms(6,7)
proof (induction k rule: dec_induct)
  case base
  then have n: "n < length gain" by simp
  have j: "j = n" if "n \<le> j \<and> j < Suc n" for j using that by simp
  show ?case using assms(1,2,5) n
    by (auto simp: rsi_avgs_at_def rsi_seed_def dest!: j)
next
  case (step k)
  let ?v = "rsi_avgs_at n gain loss k"
  from step have lt: "k < length gain" and nk: "n < k" by simp_all
  from step have len: "length (avg_gain ?v) = length gain" "length (avg_loss ?v) = length gain"
    and ih: "\<And>j. n \<le> j \<Longrightarrow> j < k \<Longrightarrow> P (avg_gain ?v ! j) \<and> P (avg_loss ?v ! j)"
    by simp_all
  have prev: "P (avg_gain ?v ! (k - 1))" "P (avg_loss ?v ! (k - 1))"
    using ih[of "k - 1"] nk by simp_all
  have g: "P (dadd (dmul (Fin (real n - 1)) (ddiv (avg_gain ?v ! (k - 1)) (Fin (real n))))
                   (ddiv (gain ! k) (Fin (real n))))"
    by (rule assms(3)[OF prev(1) nk lt])
  have l: "P (dadd (dmul (Fin (real n - 1)) (ddiv (avg_loss ?v ! (k - 1)) (Fin (real n))))
                   (ddiv (loss ! k) (Fin (real n))))"
    by (rule assms(4)[OF prev(2) nk lt])
  show ?case
    unfolding rsi_avgs_at_Suc[OF nk]
    using len lt g l ih
    by (auto simp: rsi_body_def Let_def nth_list_update less_Suc_eq)
qed

lemma rsi_avgs_at_not_negative:
  assumes "1 \<le> n" "Suc n \<le> k" "k \<le> length cl"
  shows "\<forall>j. n \<le> j \<and> j < k \<longrightarrow>
             not_negative (avg_gain (rsi_avgs_at n (rsi_gain cl) (rsi_loss cl) k) ! j)
           \<and> not_negative (avg_loss (rsi_avgs_at n (rsi_gain cl) (rsi_loss cl) k) ! j)"
proof -
  have "\<forall>x \<in> set (take n (rsi_gain cl)). not_negative x"
    using rsi_gain_not_negative by (meson in_set_takeD)
  then have g: "not_negative (ddiv (series_sum (take n (rsi_gain cl))) (Fin (real n)))"
    using assms(1) by (simp add: series_sum_not_negative ddiv_not_negative)
  have "\<forall>x \<in> set (take n (rsi_loss cl)). not_negative x"
    using rsi_loss_not_negative by (meson in_set_takeD)
  then have l: "not_negative (ddiv (series_sum (take n (rsi_loss cl))) (Fin (real n)))"
    using assms(1) by (simp add: series_sum_not_negative ddiv_not_negative)
  have sg: "not_negative (dadd (dmul (Fin (real n - 1)) (ddiv p (Fin (real n))))
                            (ddiv (rsi_gain cl ! i) (Fin (real n))))"
    if "not_negative p" "n < i" "i < length (rsi_gain cl)" for p i
    using that rsi_gain_not_negative[of cl] by (intro smooth_not_negative assms(1)) simp_all
  have sl: "not_negative (dadd (dmul (Fin (real n - 1)) (ddiv p (Fin (real n))))
                            (ddiv (rsi_loss cl ! i) (Fin (real n))))"
    if "not_negative p" "n < i" "i < length (rsi_gain cl)" for p i
    using that rsi_loss_not_negative[of cl]
    by (intro smooth_not_negative assms(1)) (simp_all add: length_rsi_gain length_rsi_loss)
  have le: "length (rsi_loss cl) = length (rsi_gain cl)" "k \<le> length (rsi_gain cl)"
    using assms(3) by (simp_all add: length_rsi_gain length_rsi_loss)
  show ?thesis
    using rsi_avgs_at_inv[of not_negative, OF g l sg sl le(1) assms(2) le(2)] by blast
qed

subsection \<open>The index as a function of the two averages\<close>

lemma rng_small:
  assumes "abs r \<le> 100"
  shows "rng r = Fin r"
proof -
  have "(100 :: real) \<le> 2 ^ 1023" by simp
  then have "abs r \<le> 2 ^ 1023" using assms by linarith
  then show ?thesis by (rule rng_Fin)
qed

lemma rsi_tail_inf: "dsub (Fin 100) (ddiv (Fin 100) (dadd (Fin 1) PInf)) = Fin 100"
  by (simp add: dsub_def rng_Fin)

lemma rsi_tail_fin:
  assumes "0 \<le> q"
  shows "\<exists>r. dsub (Fin 100) (ddiv (Fin 100) (dadd (Fin 1) (Fin q))) = Fin r \<and> 0 \<le> r \<and> r \<le> 100"
proof -
  define d where "d = 1 + q"
  have d: "1 \<le> d" using assms by (simp add: d_def)
  then have b: "100 / d \<le> 100" "0 \<le> 100 / d"
    by (simp_all add: pos_divide_le_eq)
  have "0 \<le> 1 + q" using assms by simp
  from rng_not_negative[OF this] show ?thesis
  proof
    assume "rng (1 + q) = PInf"
    then show ?thesis using rsi_tail_inf by simp
  next
    assume r: "rng (1 + q) = Fin (1 + q)"
    have "abs (100 / d) \<le> 100" "abs (100 - 100 / d) \<le> 100" using b by linarith+
    then have x: "rng (100 / d) = Fin (100 / d)"
      and y: "rng (100 - 100 / d) = Fin (100 - 100 / d)"
      by (simp_all add: rng_small)
    have "dsub (Fin 100) (ddiv (Fin 100) (dadd (Fin 1) (Fin q))) = Fin (100 - 100 / d)"
      using d x y r by (simp add: dsub_def d_def[symmetric])
    then show ?thesis using b by simp
  qed
qed

lemma rsi_of_cases:
  assumes "not_negative g" "not_negative l"
  shows "if isnan g \<or> isnan l \<or> (g = PInf \<and> l = PInf) \<or> (g = Fin 0 \<and> l = Fin 0)
         then rsi_of g l = NaN
         else (\<exists>r. rsi_of g l = Fin r \<and> 0 \<le> r \<and> r \<le> 100)
            \<and> (l = Fin 0 \<longrightarrow> rsi_of g l = Fin 100)"
proof (cases g)
  case ga: (Fin a)
  show ?thesis
  proof (cases l)
    case lb: (Fin b)
    have ab: "0 \<le> a" "0 \<le> b" using assms ga lb by simp_all
    show ?thesis
    proof (cases "b = 0")
      case True
      then show ?thesis using ga lb ab rsi_tail_inf
        by (cases "a = 0") (simp_all add: rsi_of_def dsub_def)
    next
      case False
      have "0 \<le> a / b" using ab by simp
      from rng_not_negative[OF this] have "\<exists>r. rsi_of g l = Fin r \<and> 0 \<le> r \<and> r \<le> 100"
      proof
        assume "rng (a / b) = PInf"
        then show ?thesis using ga lb False rsi_tail_inf by (simp add: rsi_of_def)
      next
        assume "rng (a / b) = Fin (a / b)"
        then show ?thesis using ga lb False rsi_tail_fin[OF \<open>0 \<le> a / b\<close>]
          by (simp add: rsi_of_def)
      qed
      then show ?thesis using ga lb False by simp
    qed
  next
    case PInf
    have "rsi_of g l = Fin 0" using ga PInf by (simp add: rsi_of_def dsub_def rng_Fin)
    then show ?thesis using ga PInf by simp
  next
    case NInf
    then show ?thesis using assms by simp
  next
    case NaN
    then show ?thesis using ga by (simp add: rsi_of_def dsub_def)
  qed
next
  case gp: PInf
  show ?thesis
  proof (cases l)
    case (Fin b)
    then have "0 \<le> b" using assms by simp
    then have "rsi_of g l = Fin 100" using gp Fin rsi_tail_inf by (simp add: rsi_of_def)
    then show ?thesis using gp Fin by auto
  next
    case NInf
    then show ?thesis using assms by simp
  qed (simp_all add: gp rsi_of_def dsub_def)
next
  case NInf
  then show ?thesis using assms by simp
next
  case NaN
  then show ?thesis by (cases l) (simp_all add: rsi_of_def dsub_def)
qed

subsection \<open>The averages of closes of moderate size are finite\<close>

lemma mul_div_self:
  fixes c x :: real
  assumes "c \<noteq> 0"
  shows "c * (x / c) = x"
  using assms by simp

lemma in_band_nonneg: "in_band 0 M x \<Longrightarrow> nonneg_fin x"
  by (cases x) simp_all

lemma rng_band:
  assumes "0 \<le> r" "r \<le> M" "M \<le> 2 ^ 1023"
  shows "rng r = Fin r"
proof -
  have "abs r \<le> 2 ^ 1023" using assms by linarith
  then show ?thesis by (rule rng_Fin)
qed

lemma change_in_band:
  assumes "mag_le B c" "mag_le B p" "2 * B \<le> 2 ^ 1023"
  shows "\<exists>d. dsub c p = Fin d \<and> abs d \<le> 2 * B"
proof -
  from assms obtain c0 p0 where v: "c = Fin c0" "p = Fin p0" and b: "abs c0 \<le> B" "abs p0 \<le> B"
    unfolding mag_le_iff by blast
  have d: "abs (c0 - p0) \<le> 2 * B" using b by linarith
  then have "abs (c0 - p0) \<le> 2 ^ 1023" using assms(3) by linarith
  then have "rng (c0 - p0) = Fin (c0 - p0)" by (rule rng_Fin)
  then show ?thesis using v d by (simp add: dsub_def)
qed

lemma gain_clip_in_band:
  assumes "abs d \<le> M"
  shows "in_band 0 M (if flt (Fin d) (Fin 0) then Fin 0 else Fin d)"
  using assms by auto

lemma loss_clip_in_band:
  assumes "abs d \<le> M" "M \<le> 2 ^ 1023"
  shows "in_band 0 M (dmul (Fin (- 1)) (if fgt (Fin d) (Fin 0) then Fin 0 else Fin d))"
proof (cases "0 < d")
  case True
  have "rng 0 = Fin 0" by (simp add: rng_Fin)
  then show ?thesis using True assms by (simp add: fgt_def)
next
  case False
  then have "0 \<le> - d" "- d \<le> M" using assms by linarith+
  then have "rng (- d) = Fin (- d)" using assms(2) by (rule rng_band)
  then show ?thesis using False \<open>- d \<le> M\<close> by (simp add: fgt_def)
qed

lemma rsi_entries_in_band:
  assumes "\<forall>x \<in> set cl. mag_le B x" "2 * B \<le> 2 ^ 1023" "1 \<le> i" "i < length cl"
  shows "in_band 0 (2 * B) (rsi_gain cl ! i)" "in_band 0 (2 * B) (rsi_loss cl ! i)"
proof -
  have "mag_le B (cl ! i)" "mag_le B (cl ! (i - 1))" using assms by simp_all
  from change_in_band[OF this assms(2)] obtain d where
    d: "dsub (cl ! i) (cl ! (i - 1)) = Fin d" "abs d \<le> 2 * B" by blast
  have c: "rsi_change cl ! i = Fin d" using assms(3,4) d(1) by (simp add: rsi_change_nth)
  show "in_band 0 (2 * B) (rsi_gain cl ! i)"
    unfolding rsi_gain_def using assms(4) gain_clip_in_band[OF d(2)]
    by (simp only: nth_map length_rsi_change c)
  show "in_band 0 (2 * B) (rsi_loss cl ! i)"
    unfolding rsi_loss_def using assms(4) loss_clip_in_band[OF d(2) assms(2)]
    by (simp only: nth_map length_map length_rsi_change c)
qed

lemma rsi_window_in_band:
  assumes "\<forall>x \<in> set cl. mag_le B x" "2 * B \<le> 2 ^ 1023" "n \<le> length cl"
  shows "\<forall>x \<in> set (take n (rsi_gain cl)). isnan x \<or> in_band 0 (2 * B) x"
    and "\<forall>x \<in> set (take n (rsi_loss cl)). isnan x \<or> in_band 0 (2 * B) x"
proof -
  have g: "isnan (rsi_gain cl ! j) \<or> in_band 0 (2 * B) (rsi_gain cl ! j)" if "j < n" for j
  proof (cases j)
    case 0
    then show ?thesis using that assms(3) rsi_gain_0[of cl] by force
  next
    case (Suc m)
    then show ?thesis using that assms(3) rsi_entries_in_band(1)[OF assms(1,2), of j] by simp
  qed
  show "\<forall>x \<in> set (take n (rsi_gain cl)). isnan x \<or> in_band 0 (2 * B) x"
  proof
    fix x assume "x \<in> set (take n (rsi_gain cl))"
    then obtain j where "j < n" "x = rsi_gain cl ! j"
      by (auto simp: in_set_conv_nth)
    then show "isnan x \<or> in_band 0 (2 * B) x" using g[of j] by simp
  qed
  have l: "isnan (rsi_loss cl ! j) \<or> in_band 0 (2 * B) (rsi_loss cl ! j)" if "j < n" for j
  proof (cases j)
    case 0
    then show ?thesis using that assms(3) rsi_loss_0[of cl] by force
  next
    case (Suc m)
    then show ?thesis using that assms(3) rsi_entries_in_band(2)[OF assms(1,2), of j] by simp
  qed
  show "\<forall>x \<in> set (take n (rsi_loss cl)). isnan x \<or> in_band 0 (2 * B) x"
  proof
    fix x assume "x \<in> set (take n (rsi_loss cl))"
    then obtain j where "j < n" "x = rsi_loss cl ! j"
      by (auto simp: in_set_conv_nth)
    then show "isnan x \<or> in_band 0 (2 * B) x" using l[of j] by simp
  qed
qed

lemma series_sum_in_band:
  assumes "\<forall>x \<in> set xs. isnan x \<or> in_band 0 M x" "real (length xs) * M \<le> 2 ^ 1023" "0 \<le> M"
  shows "in_band 0 (real (length xs) * M) (series_sum xs)"
  using assms(1,2)
proof (induction xs)
  case Nil
  show ?case by simp
next
  case (Cons x xs)
  have st: "real (length (x # xs)) * M = M + real (length xs) * M"
    by (simp add: algebra_simps)
  have le: "real (length xs) * M \<le> 2 ^ 1023" using Cons.prems(2) assms(3) unfolding st by linarith
  have "in_band 0 (real (length xs) * M) (series_sum xs)"
    using Cons.IH Cons.prems(1) le by simp
  then obtain s where s: "series_sum xs = Fin s" "0 \<le> s" "s \<le> real (length xs) * M"
    unfolding in_band_iff by blast
  show ?case
  proof (cases "isnan x")
    case True
    then show ?thesis using s assms(3) unfolding st by simp
  next
    case False
    then have "in_band 0 M x" using Cons.prems(1) by simp
    then obtain a where a: "x = Fin a" "0 \<le> a" "a \<le> M" unfolding in_band_iff by blast
    have b: "0 \<le> a + s" "a + s \<le> M + real (length xs) * M" using a s by linarith+
    have "rng (a + s) = Fin (a + s)"
      using b Cons.prems(2) unfolding st by (rule rng_band)
    then show ?thesis using a s b unfolding st by simp
  qed
qed

lemma seed_in_band:
  assumes "\<forall>x \<in> set xs. isnan x \<or> in_band 0 M x" "real n * M \<le> 2 ^ 1023" "0 \<le> M"
    and "1 \<le> n" "length xs \<le> n"
  shows "in_band 0 M (ddiv (series_sum xs) (Fin (real n)))"
proof -
  have lm: "real (length xs) * M \<le> real n * M"
    using assms(3,5) by (intro mult_right_mono) simp_all
  then have "real (length xs) * M \<le> 2 ^ 1023" using assms(2) by linarith
  from series_sum_in_band[OF assms(1) this assms(3)] obtain s where
    s: "series_sum xs = Fin s" "0 \<le> s" "s \<le> real (length xs) * M"
    unfolding in_band_iff by blast
  have n0: "0 < real n" using assms(4) by simp
  have q: "0 \<le> s / real n" "s / real n \<le> M"
    using s lm n0 by (simp_all add: pos_divide_le_eq mult.commute)
  have "M \<le> real n * M" using assms(3,4) mult_right_mono[of 1 "real n" M] by simp
  then have "M \<le> 2 ^ 1023" using assms(2) by linarith
  from rng_band[OF q this] show ?thesis using s q n0 by simp
qed

lemma smooth_in_band:
  assumes "in_band 0 M p" "in_band 0 M x" "1 \<le> n" "M \<le> 2 ^ 1023"
  shows "in_band 0 M (dadd (dmul (Fin (real n - 1)) (ddiv p (Fin (real n)))) (ddiv x (Fin (real n))))"
proof -
  from assms obtain p0 x0 where v: "p = Fin p0" "x = Fin x0"
    and b: "0 \<le> p0" "p0 \<le> M" "0 \<le> x0" "x0 \<le> M"
    unfolding in_band_iff by blast
  define t where "t = 1 / real n"
  have n0: "real n \<noteq> 0" "0 < real n" using assms(3) by simp_all
  have t: "0 \<le> t" "t \<le> 1" using assms(3) by (simp_all add: t_def)
  have dp: "p0 / real n = t * p0" and dx: "x0 / real n = t * x0" by (simp_all add: t_def)
  have nt: "(real n - 1) * (t * p0) = (1 - t) * p0" using n0 by (simp add: t_def field_simps)
  have m1: "t * p0 \<le> t * M" "t * x0 \<le> t * M" using t b by (simp_all add: mult_left_mono)
  have m2: "(1 - t) * p0 \<le> (1 - t) * M" using t b by (simp add: mult_left_mono)
  have m3: "t * M \<le> 1 * M" using t b by (intro mult_right_mono) simp_all
  have z: "0 \<le> t * p0" "0 \<le> t * x0" "0 \<le> (1 - t) * p0" using t b by simp_all
  have sM: "(1 - t) * M + t * M = M" by (simp add: algebra_simps)
  have u1: "t * p0 \<le> M" "t * x0 \<le> M" using m1 m3 by linarith+
  have u2: "(1 - t) * p0 \<le> M" using m2 z(1) m1(1) sM b by linarith
  have u3: "0 \<le> (1 - t) * p0 + t * x0" "(1 - t) * p0 + t * x0 \<le> M"
    using z m1 m2 sM by linarith+
  have r1: "rng (t * p0) = Fin (t * p0)" "rng (t * x0) = Fin (t * x0)"
    using z u1 assms(4) by (auto intro: rng_band)
  have r2: "rng ((1 - t) * p0) = Fin ((1 - t) * p0)" using z u2 assms(4) by (auto intro: rng_band)
  have r3: "rng ((1 - t) * p0 + t * x0) = Fin ((1 - t) * p0 + t * x0)"
    using u3 assms(4) by (auto intro: rng_band)
  have "dadd (dmul (Fin (real n - 1)) (ddiv p (Fin (real n)))) (ddiv x (Fin (real n)))
        = Fin ((1 - t) * p0 + t * x0)"
    unfolding v ddiv.simps dp dx using n0(1) by (simp add: r1 nt r2 r3)
  then show ?thesis using u3 by simp
qed

lemma rsi_avgs_at_in_band:
  assumes "\<forall>x \<in> set cl. mag_le B x" "real n * (2 * B) \<le> 2 ^ 1023" "0 \<le> B"
    and "1 \<le> n" "Suc n \<le> k" "k \<le> length cl"
  shows "\<forall>j. n \<le> j \<and> j < k \<longrightarrow>
             in_band 0 (2 * B) (avg_gain (rsi_avgs_at n (rsi_gain cl) (rsi_loss cl) k) ! j)
           \<and> in_band 0 (2 * B) (avg_loss (rsi_avgs_at n (rsi_gain cl) (rsi_loss cl) k) ! j)"
proof -
  have M0: "0 \<le> 2 * B" using assms(3) by simp
  have "2 * B \<le> real n * (2 * B)" using M0 assms(4) mult_right_mono[of 1 "real n" "2 * B"] by simp
  then have M: "2 * B \<le> 2 ^ 1023" using assms(2) by linarith
  have nl: "n \<le> length cl" using assms(5,6) by simp
  have g: "in_band 0 (2 * B) (ddiv (series_sum (take n (rsi_gain cl))) (Fin (real n)))"
    using rsi_window_in_band(1)[OF assms(1) M nl] assms(2) M0 assms(4)
    by (rule seed_in_band) simp
  have l: "in_band 0 (2 * B) (ddiv (series_sum (take n (rsi_loss cl))) (Fin (real n)))"
    using rsi_window_in_band(2)[OF assms(1) M nl] assms(2) M0 assms(4)
    by (rule seed_in_band) simp
  have sg: "in_band 0 (2 * B) (dadd (dmul (Fin (real n - 1)) (ddiv p (Fin (real n))))
                            (ddiv (rsi_gain cl ! i) (Fin (real n))))"
    if "in_band 0 (2 * B) p" "n < i" "i < length (rsi_gain cl)" for p i
  proof -
    have "in_band 0 (2 * B) (rsi_gain cl ! i)"
      using that rsi_entries_in_band(1)[OF assms(1) M, of i] by (simp add: length_rsi_gain)
    then show ?thesis using that(1) assms(4) M by (intro smooth_in_band)
  qed
  have sl: "in_band 0 (2 * B) (dadd (dmul (Fin (real n - 1)) (ddiv p (Fin (real n))))
                            (ddiv (rsi_loss cl ! i) (Fin (real n))))"
    if "in_band 0 (2 * B) p" "n < i" "i < length (rsi_gain cl)" for p i
  proof -
    have "in_band 0 (2 * B) (rsi_loss cl ! i)"
      using that rsi_entries_in_band(2)[OF assms(1) M, of i] by (simp add: length_rsi_gain)
    then show ?thesis using that(1) assms(4) M by (intro smooth_in_band)
  qed
  have le: "length (rsi_loss cl) = length (rsi_gain cl)" "k \<le> length (rsi_gain cl)"
    using assms(6) by (simp_all add: length_rsi_gain length_rsi_loss)
  show ?thesis
    using rsi_avgs_at_inv[of "in_band 0 (2 * B)", OF g l sg sl le(1) assms(5) le(2)] by blast
qed

text \<open>
  Claim C2, as amended. For every price series and every window \<open>n \<ge> 1\<close>, at every bar
  from the seed bar \<open>n\<close> onward the index is undefined exactly when one of the two
  averages of the bar is undefined, or both are infinite, or both are zero. In every other
  case it is a finite value between 0 and 100; this covers every bar whose average loss is
  a non-zero number while the average gain is finite, and when the average loss is zero
  (the average gain is then not zero) the index is 100: the quotient of the averages is
  infinite and 100 / (1 + infinity) is 0. When \<open>n \<ge> 2\<close> and every close is a finite number
  of magnitude at most \<open>2 ^ 1022 / n\<close>, both averages are finite and not negative at every
  such bar, so that the index is then undefined only where both averages are zero.
\<close>

theorem rsi_zero_loss:
  assumes "1 \<le> n" and "n \<le> i" and "i < length (data a)"
  shows "\<exists>v out. rsi_averages n (close a) = Inr v \<and> relative_strength_index a n = Inr out
     \<and> (if isnan (avg_gain v ! i) \<or> isnan (avg_loss v ! i)
           \<or> (avg_gain v ! i = PInf \<and> avg_loss v ! i = PInf)
           \<or> (avg_gain v ! i = Fin 0 \<and> avg_loss v ! i = Fin 0)
         then out ! i = NaN
         else (\<exists>r. out ! i = Fin r \<and> 0 \<le> r \<and> r \<le> 100)
            \<and> (avg_loss v ! i = Fin 0 \<longrightarrow> out ! i = Fin 100))
     \<and> (2 \<le> n \<and> (\<forall>b \<in> set (data a). mag_le (2 ^ 1022 / real n) (Close b)) \<longrightarrow>
          nonneg_fin (avg_gain v ! i) \<and> nonneg_fin (avg_loss v ! i))"
proof -
  let ?cl = "close a"
  let ?v = "rsi_avgs_at n (rsi_gain ?cl) (rsi_loss ?cl) (length ?cl)"
  have len: "length ?cl = length (data a)" by (simp add: close_def)
  have sn: "Suc n \<le> length ?cl" using assms(2,3) len by simp
  have av: "rsi_averages n ?cl = Inr ?v"
    using sn by (simp add: rsi_averages_def Let_def length_rsi_gain)
  have out: "relative_strength_index a n = Inr (map2 rsi_of (avg_gain ?v) (avg_loss ?v))"
    by (simp add: relative_strength_index_def av)
  have lens: "length (avg_gain ?v) = length ?cl" "length (avg_loss ?v) = length ?cl"
    using rsi_avgs_at_length[OF sn, of "rsi_gain ?cl" "rsi_loss ?cl"]
    by (simp_all add: length_rsi_gain length_rsi_loss)
  have nn: "not_negative (avg_gain ?v ! i)" "not_negative (avg_loss ?v ! i)"
    using rsi_avgs_at_not_negative[OF assms(1) sn order_refl] assms(2,3) len by simp_all
  have nth: "map2 rsi_of (avg_gain ?v) (avg_loss ?v) ! i = rsi_of (avg_gain ?v ! i) (avg_loss ?v ! i)"
    using lens assms(3) len by simp
  have fin: "2 \<le> n \<and> (\<forall>b \<in> set (data a). mag_le (2 ^ 1022 / real n) (Close b)) \<longrightarrow>
      nonneg_fin (avg_gain ?v ! i) \<and> nonneg_fin (avg_loss ?v ! i)"
  proof
    assume h: "2 \<le> n \<and> (\<forall>b \<in> set (data a). mag_le (2 ^ 1022 / real n) (Close b))"
    define B :: real where "B = 2 ^ 1022 / real n"
    have n0: "real n \<noteq> 0" using assms(1) by simp
    have c: "\<forall>x \<in> set ?cl. mag_le B x" using h by (simp add: close_def B_def)
    have "real n * (2 * B) = 2 * (real n * (2 ^ 1022 / real n))" by (simp add: B_def)
    also have "\<dots> = 2 * 2 ^ 1022" by (simp only: mul_div_self[OF n0])
    also have "\<dots> = 2 ^ 1023" by simp
    finally have b: "real n * (2 * B) \<le> 2 ^ 1023" by simp
    have z: "0 \<le> B" by (simp add: B_def)
    have ni: "n \<le> i \<and> i < length ?cl" using assms(2,3) len by simp
    have "in_band 0 (2 * B) (avg_gain ?v ! i) \<and> in_band 0 (2 * B) (avg_loss ?v ! i)"
      using rsi_avgs_at_in_band[OF c b z assms(1) sn order_refl, rule_format, OF ni] .
    then show "nonneg_fin (avg_gain ?v ! i) \<and> nonneg_fin (avg_loss ?v ! i)"
      by (blast intro: in_band_nonneg)
  qed
  have cases: "if isnan (avg_gain ?v ! i) \<or> isnan (avg_loss ?v ! i)
           \<or> (avg_gain ?v ! i = PInf \<and> avg_loss ?v ! i = PInf)
           \<or> (avg_gain ?v ! i = Fin 0 \<and> avg_loss ?v ! i = Fin 0)
         then map2 rsi_of (avg_gain ?v) (avg_loss ?v) ! i = NaN
         else (\<exists>r. map2 rsi_of (avg_gain ?v) (avg_loss ?v) ! i = Fin r \<and> 0 \<le> r \<and> r \<le> 100)
            \<and> (avg_loss ?v ! i = Fin 0 \<longrightarrow> map2 rsi_of (avg_gain ?v) (avg_loss ?v) ! i = Fin 100)"
    unfolding nth by (rule rsi_of_cases[OF nn])
  show ?thesis
    by (rule exI[of _ ?v], rule exI[of _ "map2 rsi_of (avg_gain ?v) (avg_loss ?v)"], intro conjI)
      (rule av out cases fin)+
qed

text \<open>
  The theorem on the closes 1, 2, 3, 2, 3 with window 2, at the fourth bar: the average
  loss is 1/2, the average gain 1/4, and the index is 100/3.
\<close>

theorem rsi_zero_loss_witness:
  "(1 :: nat) \<le> 2 \<and> (2 :: nat) \<le> 3 \<and> 3 < length (data (asset_of_closes [1, 2, 3, 2, 3]))
   \<and> list_all (\<lambda>b. mag_le (2 ^ 1022 / real 2) (Close b)) (data (asset_of_closes [1, 2, 3, 2, 3]))
   \<and> (\<exists>v out. rsi_averages 2 (close (asset_of_closes [1, 2, 3, 2, 3])) = Inr v
      \<and> relative_strength_index (asset_of_closes [1, 2, 3, 2, 3]) 2 = Inr out
      \<and> avg_gain v ! 3 = Fin (1 / 4) \<and> avg_loss v ! 3 = Fin (1 / 2)
      \<and> (\<exists>r. out ! 3 = Fin r \<and> 0 \<le> r \<and> r \<le> 100)
      \<and> nonneg_fin (avg_gain v ! 3) \<and> nonneg_fin (avg_loss v ! 3))"
proof -
  let ?a = "asset_of_closes [1, 2, 3, 2, 3]"
  have up: "[0..<5] = [0, 1, 2, 3, 4]" "[3..<5] = [3, 4]" by (simp_all add: upt_rec)
  have h: "\<forall>b \<in> set (data ?a). mag_le (2 ^ 1022 / real 2) (Close b)"
    by (simp add: asset_of_closes_def day_bar_def up)
  have l: "3 < length (data ?a)" by (simp add: asset_of_closes_def)
  have cl: "close ?a = [Fin 1, Fin 2, Fin 3, Fin 2, Fin 3]"
    by (simp add: close_def asset_of_closes_def day_bar_def up)
  have av: "rsi_averages 2 (close ?a) =
      Inr \<lparr>avg_gain = [Fin 0, Fin 0, Fin (1 / 2), Fin (1 / 4), Fin (5 / 8)],
           avg_loss = [Fin 0, Fin 0, Fin 0, Fin (1 / 2), Fin (1 / 4)]\<rparr>"
    unfolding cl
    by (simp add: rsi_averages_def rsi_gain_def rsi_loss_def rsi_change_def shift1_def dsub_def
        fgt_def rsi_avgs_at_def rsi_seed_def rsi_body_def Let_def up rng_small)
  show ?thesis
    using rsi_zero_loss[of 2 3 ?a] l h av by (auto simp: list_all_iff)
qed

text \<open>
  The claim as stated fails on the closes 1, 2, 3 with window 2: the average loss of the
  last bar is zero and the index there is the finite value 100, not undefined. It also
  fails on five closes that alternate between \<open>- 2 ^ 1023\<close> and \<open>2 ^ 1023\<close>: every change
  is beyond the range of a double, both averages of the last bar are infinite, and the
  index there is undefined although the average loss is not zero.
\<close>

theorem rsi_zero_loss_counterexample:
  "(\<exists>v out. rsi_averages 2 (close (asset_of_closes [1, 2, 3])) = Inr v
      \<and> relative_strength_index (asset_of_closes [1, 2, 3]) 2 = Inr out
      \<and> avg_loss v ! 2 = Fin 0 \<and> out ! 2 = Fin 100 \<and> \<not> isnan (out ! 2))
   \<and> (\<exists>v out. rsi_averages 2 (close rsi_wide) = Inr v
      \<and> relative_strength_index rsi_wide 2 = Inr out
      \<and> avg_gain v ! 4 = PInf \<and> avg_loss v ! 4 = PInf \<and> avg_loss v ! 4 \<noteq> Fin 0
      \<and> out ! 4 = NaN)"
proof -
  let ?a = "asset_of_closes [1, 2, 3]"
  have up: "[0..<3] = [0, 1, 2]" "[0..<5] = [0, 1, 2, 3, 4]" "[3..<5] = [3, 4]"
    by (simp_all add: upt_rec)
  have cl: "close ?a = [Fin 1, Fin 2, Fin 3]"
    by (simp add: close_def asset_of_closes_def day_bar_def up)
  have av: "rsi_averages 2 (close ?a) =
      Inr \<lparr>avg_gain = [Fin 0, Fin 0, Fin (1 / 2)], avg_loss = [Fin 0, Fin 0, Fin 0]\<rparr>"
    unfolding cl
    by (simp add: rsi_averages_def rsi_gain_def rsi_loss_def rsi_change_def shift1_def dsub_def
        fgt_def rsi_avgs_at_def rsi_seed_def rsi_body_def Let_def rng_small)
  have one: "\<exists>v out. rsi_averages 2 (close ?a) = Inr v
      \<and> relative_strength_index ?a 2 = Inr out
      \<and> avg_loss v ! 2 = Fin 0 \<and> out ! 2 = Fin 100 \<and> \<not> isnan (out ! 2)"
    by (simp add: relative_strength_index_def av rsi_of_def dsub_def rng_small)
  have big: "rng (2 * 2 ^ 1023) = PInf" "rng (- (2 * 2 ^ 1023)) = NInf" "rng 0 = Fin 0"
    by (simp_all add: rng_def overflow_at_def)
  have clw: "close rsi_wide =
      [Fin (- (2 ^ 1023)), Fin (2 ^ 1023), Fin (- (2 ^ 1023)), Fin (2 ^ 1023), Fin (- (2 ^ 1023))]"
    by (simp add: close_def rsi_wide_def asset_of_closes_def day_bar_def up del: power_numeral)
  have ch: "rsi_change (close rsi_wide) = [NaN, PInf, NInf, PInf, NInf]"
    unfolding clw by (simp add: rsi_change_def shift1_def dsub_def big del: power_numeral)
  have avw: "rsi_averages 2 (close rsi_wide) =
      Inr \<lparr>avg_gain = [Fin 0, Fin 0, PInf, PInf, PInf],
           avg_loss = [Fin 0, Fin 0, Fin 0, Fin 0, PInf]\<rparr>"
    unfolding rsi_averages_def rsi_gain_def rsi_loss_def ch
    by (simp add: fgt_def rsi_avgs_at_def rsi_seed_def rsi_body_def Let_def up big)
  have two: "\<exists>v out. rsi_averages 2 (close rsi_wide) = Inr v
      \<and> relative_strength_index rsi_wide 2 = Inr out
      \<and> avg_gain v ! 4 = PInf \<and> avg_loss v ! 4 = PInf \<and> avg_loss v ! 4 \<noteq> Fin 0
      \<and> out ! 4 = NaN"
    by (simp add: relative_strength_index_def avw rsi_of_def dsub_def)
  show ?thesis using one two by blast
qed

section \<open>Relative Strength Index: the seed and the smoothing\<close>

text \<open>
  From the bar after the seed on, each average is the smoothing of its previous value
  with the gain (or loss) of the bar, as the loop computes it.
\<close>

lemma rsi_averages_step:
  assumes "rsi_averages n cl = Inr v" "n < i" "i < length cl"
  shows "avg_gain v ! i =
           dadd (dmul (Fin (real n - 1)) (ddiv (avg_gain v ! (i - 1)) (Fin (real n))))
                (ddiv (rsi_gain cl ! i) (Fin (real n)))
       \<and> avg_loss v ! i =
           dadd (dmul (Fin (real n - 1)) (ddiv (avg_loss v ! (i - 1)) (Fin (real n))))
                (ddiv (rsi_loss cl ! i) (Fin (real n)))"
proof -
  let ?V = "rsi_avgs_at n (rsi_gain cl) (rsi_loss cl)"
  have v: "v = ?V (length cl)"
    using assms(1) by (simp add: rsi_averages_def Let_def length_rsi_gain split: if_splits)
  obtain j where j: "i = Suc j" "n \<le> j" using assms(2) by (cases i) auto
  have len: "length (avg_gain (?V i)) = length cl" "length (avg_loss (?V i)) = length cl"
    using rsi_avgs_at_length[of n i "rsi_gain cl" "rsi_loss cl"] assms(2)
    by (simp_all add: length_rsi_gain length_rsi_loss)
  have cur: "avg_gain v ! i = avg_gain (?V (Suc i)) ! i" "avg_loss v ! i = avg_loss (?V (Suc i)) ! i"
    unfolding v using rsi_avgs_at_stable[of i "length cl" n] assms(2,3) by simp_all
  have prev: "avg_gain v ! (i - 1) = avg_gain (?V i) ! (i - 1)"
    "avg_loss v ! (i - 1) = avg_loss (?V i) ! (i - 1)"
    unfolding v using rsi_avgs_at_stable[of j "length cl" n] assms(3) j by simp_all
  show ?thesis
    unfolding cur prev rsi_avgs_at_Suc[OF assms(2)]
    using len assms(3) by (simp add: rsi_body_def Let_def)
qed

text \<open>
  Claim C8. The seed average at bar \<open>n\<close> should be the simple mean of the first \<open>n\<close>
  gains. On the closes 1, 2, 4 with \<open>n = 2\<close> the gains are 1 and 2 (the first bar has no
  change, its entry is undefined), whose mean is 3/2; the loop stores 1/2 at bar 2: the
  window \<^verbatim>\<open>gain[0:n]\<close> holds the undefined first entry, which the sum skips, and only
  \<open>n - 1\<close> gains, while the divisor is \<open>n\<close>.
\<close>

theorem rsi_seed_window:
  "rsi_gain [Fin 1, Fin 2, Fin 4] = [NaN, Fin 1, Fin 2]
   \<and> (\<exists>v. rsi_averages 2 [Fin 1, Fin 2, Fin 4] = Inr v \<and> avg_gain v ! 2 = Fin (1 / 2))"
  by (simp add: rsi_averages_def rsi_gain_def rsi_loss_def rsi_change_def shift1_def dsub_def
        fgt_def rsi_avgs_at_def rsi_seed_def rsi_body_def Let_def rng_small)

section \<open>Drawdown: sign, new highs and the episode table\<close>

lemma pos_fin_iff: "pos_fin x = (\<exists>r. x = Fin r \<and> 0 < r)"
  by (cases x) auto

lemma ffill_from_pos:
  assumes "pos_fin lastv" "\<forall>x \<in> set xs. isnan x \<or> pos_fin x"
  shows "\<forall>x \<in> set (ffill_from lastv xs). pos_fin x"
  using assms by (induction xs arbitrary: lastv) auto

lemma length_ffill_from: "length (ffill_from lastv xs) = length xs"
  by (induction xs arbitrary: lastv) auto

lemma ffill_pos:
  assumes "xs \<noteq> []" "pos_fin (hd xs)" "\<forall>x \<in> set xs. isnan x \<or> pos_fin x"
  shows "\<forall>x \<in> set (ffill xs). pos_fin x"
proof -
  obtain y ys where xs: "xs = y # ys" using assms(1) by (cases xs) auto
  then have "\<not> isnan y" using assms(2) by (auto simp: pos_fin_iff)
  then show ?thesis using assms xs ffill_from_pos[of y ys]
    by (auto simp: ffill_def)
qed

lemma length_expanding_max_from: "length (expanding_max_from m xs) = length xs"
  by (induction xs arbitrary: m) (auto simp: Let_def)

lemma expanding_max_from_nth:
  assumes "\<forall>x \<in> set xs. is_finite x" "i < length xs"
  shows "\<exists>M. expanding_max_from (Fin m) xs ! i = Fin M \<and> m \<le> M
          \<and> (\<forall>j \<le> i. fval (xs ! j) \<le> M) \<and> (M = m \<or> (\<exists>j \<le> i. fval (xs ! j) = M))"
  using assms
proof (induction xs arbitrary: m i)
  case Nil
  then show ?case by simp
next
  case (Cons x xs)
  from Cons.prems obtain r where x: "x = Fin r" by (cases x) auto
  let ?m = "if m < r then r else m"
  have hd: "expanding_max_from (Fin m) (x # xs) = Fin ?m # expanding_max_from (Fin ?m) xs"
    by (simp add: x Let_def)
  show ?case
  proof (cases i)
    case 0
    then show ?thesis unfolding hd by (auto simp: x)
  next
    case (Suc k)
    then have "k < length xs" "\<forall>x \<in> set xs. is_finite x" using Cons.prems by simp_all
    from Cons.IH[OF this(2,1), of ?m] obtain M where M:
      "expanding_max_from (Fin ?m) xs ! k = Fin M" "?m \<le> M"
      "\<forall>j \<le> k. fval (xs ! j) \<le> M" "M = ?m \<or> (\<exists>j \<le> k. fval (xs ! j) = M)"
      by blast
    have a: "\<forall>j \<le> Suc k. fval ((x # xs) ! j) \<le> M"
    proof (intro allI impI)
      fix j assume "j \<le> Suc k"
      then show "fval ((x # xs) ! j) \<le> M" using M(2,3) by (cases j) (auto simp: x split: if_splits)
    qed
    have b: "M = m \<or> (\<exists>j \<le> Suc k. fval ((x # xs) ! j) = M)"
    proof -
      from M(4) consider "M = m" | "M = r" | "\<exists>j \<le> k. fval (xs ! j) = M"
        by (auto split: if_splits)
      then show ?thesis
      proof cases
        case 1 then show ?thesis by simp
      next
        case 2
        then have "fval ((x # xs) ! 0) = M" by (simp add: x)
        then show ?thesis by blast
      next
        case 3
        then obtain j where "j \<le> k" "fval (xs ! j) = M" by blast
        then have "Suc j \<le> Suc k" "fval ((x # xs) ! Suc j) = M" by simp_all
        then show ?thesis by blast
      qed
    qed
    have "m \<le> M" using M(2) by (auto split: if_splits)
    then show ?thesis unfolding hd Suc using M(1) a b by auto
  qed
qed

lemma expanding_max_nth:
  assumes "\<forall>x \<in> set xs. is_finite x" "i < length xs"
  shows "\<exists>M. expanding_max xs ! i = Fin M
          \<and> (\<forall>j \<le> i. fval (xs ! j) \<le> M) \<and> (\<exists>j \<le> i. fval (xs ! j) = M)"
proof -
  obtain y ys where xs: "xs = y # ys" using assms(2) by (cases xs) auto
  then obtain r where y: "y = Fin r" using assms(1) by (cases y) auto
  have e: "expanding_max xs = Fin r # expanding_max_from (Fin r) ys"
    by (simp add: expanding_max_def xs y Let_def)
  show ?thesis
  proof (cases i)
    case 0
    then show ?thesis unfolding e by (auto simp: xs y)
  next
    case (Suc k)
    then have "k < length ys" "\<forall>x \<in> set ys. is_finite x" using assms xs by simp_all
    from expanding_max_from_nth[OF this(2,1), of r] obtain M where M:
      "expanding_max_from (Fin r) ys ! k = Fin M" "r \<le> M"
      "\<forall>j \<le> k. fval (ys ! j) \<le> M" "M = r \<or> (\<exists>j \<le> k. fval (ys ! j) = M)"
      by blast
    have a: "\<forall>j \<le> Suc k. fval (xs ! j) \<le> M"
    proof (intro allI impI)
      fix j assume "j \<le> Suc k"
      then show "fval (xs ! j) \<le> M" using M(2,3) by (cases j) (auto simp: xs y)
    qed
    have b: "\<exists>j \<le> Suc k. fval (xs ! j) = M"
    proof -
      from M(4) consider "M = r" | "\<exists>j \<le> k. fval (ys ! j) = M" by blast
      then show ?thesis
      proof cases
        case 1
        then have "fval (xs ! 0) = M" by (simp add: xs y)
        then show ?thesis by blast
      next
        case 2
        then obtain j where "j \<le> k" "fval (ys ! j) = M" by blast
        then have "Suc j \<le> Suc k" "fval (xs ! Suc j) = M" by (simp_all add: xs)
        then show ?thesis by blast
      qed
    qed
    show ?thesis unfolding e Suc using M(1) a b unfolding Suc[symmetric] by (simp add: Suc)
  qed
qed


lemma pos_fin_is_finite: "pos_fin x \<Longrightarrow> is_finite x"
  by (auto simp: pos_fin_iff)

lemma map_nan_fix_id:
  assumes "\<forall>x \<in> set xs. pos_fin x"
  shows "map (\<lambda>x. if isnan x then NInf else x) xs = xs"
  using assms by (induction xs) (auto simp: pos_fin_iff)

text \<open>
  Claim C9. When the first close is a positive number and every later close is a positive
  number or missing, every entry of \<^verbatim>\<open>drawdown()\<close> is a finite value that is at most
  zero, and it is exactly zero at the bars whose forward-filled close is at least every
  forward-filled close before it, that is, at the bars that attain the running maximum,
  and at no other bar.
\<close>

theorem drawdown_nonpositive:
  assumes "pos_fin (Close (hd (data a)))"
    and "\<forall>b \<in> set (data a). isnan (Close b) \<or> pos_fin (Close b)"
    and "i < length (data a)"
  shows "\<exists>d. drawdown a ! i = Fin d \<and> d \<le> 0
     \<and> (d = 0 \<longleftrightarrow> (\<forall>j \<le> i. fval (ffill (close a) ! j) \<le> fval (ffill (close a) ! i)))"
proof -
  let ?c = "ffill (close a)"
  have ne: "close a \<noteq> []" using assms(3) by (auto simp: close_def)
  have hd: "pos_fin (hd (close a))" using assms(1,3) by (cases "data a") (auto simp: close_def)
  have al: "\<forall>x \<in> set (close a). isnan x \<or> pos_fin x" using assms(2) by (auto simp: close_def)
  have pos: "\<forall>x \<in> set ?c. pos_fin x" by (rule ffill_pos[OF ne hd al])
  have fin: "\<forall>x \<in> set ?c. is_finite x" using pos pos_fin_is_finite by blast
  have len: "length ?c = length (data a)" by (simp add: ffill_def length_ffill_from close_def)
  have i: "i < length ?c" using assms(3) len by simp
  have dd: "drawdown a = map2 (\<lambda>d h. fsub (fdiv d h) (Fin 1)) ?c (expanding_max ?c)"
    by (simp add: drawdown_def Let_def map_nan_fix_id[OF pos])
  have ddi: "drawdown a ! i = fsub (fdiv (?c ! i) (expanding_max ?c ! i)) (Fin 1)"
    unfolding dd using i by (simp add: expanding_max_def length_expanding_max_from)
  have "pos_fin (?c ! i)" using pos i by simp
  then obtain r where r: "?c ! i = Fin r" "0 < r" by (auto simp: pos_fin_iff)
  from expanding_max_nth[OF fin i] obtain M where M: "expanding_max ?c ! i = Fin M"
    "\<forall>j \<le> i. fval (?c ! j) \<le> M" "\<exists>j \<le> i. fval (?c ! j) = M" by blast
  have rM: "r \<le> M" using M(2) r(1) by force
  then have Mpos: "0 < M" using r(2) by simp
  have val: "drawdown a ! i = Fin (r / M - 1)"
    unfolding ddi r(1) M(1) using Mpos by (simp add: fsub_def)
  have le: "r / M - 1 \<le> 0" using rM Mpos by (simp add: pos_divide_le_eq)
  have eq: "(r / M - 1 = 0) = (r = M)" using Mpos by (simp add: field_simps)
  have iff: "(r = M) = (\<forall>j \<le> i. fval (?c ! j) \<le> fval (?c ! i))"
  proof
    assume "r = M"
    then show "\<forall>j \<le> i. fval (?c ! j) \<le> fval (?c ! i)" using M(2) r(1) by simp
  next
    assume h: "\<forall>j \<le> i. fval (?c ! j) \<le> fval (?c ! i)"
    from M(3) obtain j where "j \<le> i" "fval (?c ! j) = M" by blast
    then have "M \<le> r" using h r(1) by force
    then show "r = M" using rM by simp
  qed
  show ?thesis using val le eq iff by simp
qed

text \<open>The theorem on the closes 2, 1, 3: a new high at the last bar, half below the peak before it.\<close>

theorem drawdown_nonpositive_witness:
  "pos_fin (Close (hd (data (asset_of_closes [2, 1, 3]))))
   \<and> list_all (\<lambda>b. isnan (Close b) \<or> pos_fin (Close b)) (data (asset_of_closes [2, 1, 3]))
   \<and> drawdown (asset_of_closes [2, 1, 3]) ! 1 = Fin (- (1 / 2))
   \<and> drawdown (asset_of_closes [2, 1, 3]) ! 2 = Fin 0"
proof -
  let ?a = "asset_of_closes [2, 1, 3]"
  have d: "data ?a = [day_bar 0 2, day_bar 1 1, day_bar 2 3]"
    by (simp add: asset_of_closes_def day_bar_def upt_rec numeral_2_eq_2)
  have h1: "pos_fin (Close (hd (data ?a)))" by (simp add: d day_bar_def pos_fin_iff)
  have h2: "\<forall>b \<in> set (data ?a). isnan (Close b) \<or> pos_fin (Close b)"
    by (simp add: d day_bar_def pos_fin_iff)
  have c: "ffill (close ?a) = [Fin 2, Fin 1, Fin 3]"
    by (simp add: close_def d day_bar_def ffill_def)
  have l1: "1 < length (data ?a)" and l2: "2 < length (data ?a)" by (simp_all add: d)
  have j2: "(\<forall>j \<le> 2. P j) = (P 0 \<and> P 1 \<and> P (2::nat))" for P
    by (auto simp: le_Suc_eq numeral_2_eq_2)
  have j1: "(\<forall>j \<le> 1. P j) = (P 0 \<and> P (1::nat))" for P
    by (auto simp: le_Suc_eq)
  from drawdown_nonpositive[OF h1 h2 l2] have a: "drawdown ?a ! 2 = Fin 0"
    unfolding c by (auto simp: j2)
  have b: "drawdown ?a ! 1 = Fin (- (1 / 2))"
    by (simp add: drawdown_def close_def d day_bar_def ffill_def expanding_max_def Let_def fsub_def)
  show ?thesis using h1 h2 a b by (simp add: list_all_iff)
qed

text \<open>
  Claim C3. \<^verbatim>\<open>drawdown_info\<close> should return an empty table on a series that never enters
  drawdown. On the rising closes 1, 2, 3 the drawdown is zero at every bar, no start and no
  end boundary is found, the last bar is appended as the implicit end, and \<^verbatim>\<open>start[0]\<close>
  on the empty list of starts raises.
\<close>

theorem drawdown_info_raises:
  "drawdown (asset_of_closes [1, 2, 3]) = [Fin 0, Fin 0, Fin 0]
   \<and> drawdown_info (asset_of_closes [1, 2, 3]) = Inl IndexError"
proof -
  let ?a = "asset_of_closes [1, 2, 3]"
  have d: "data ?a = [day_bar 0 1, day_bar 1 2, day_bar 2 3]"
    by (simp add: asset_of_closes_def day_bar_def upt_rec numeral_2_eq_2)
  have dd: "drawdown ?a = [Fin 0, Fin 0, Fin 0]"
    by (simp add: drawdown_def close_def d day_bar_def ffill_def expanding_max_def Let_def fsub_def)
  show ?thesis
    by (simp add: dd drawdown_info_def index_def d day_bar_def Let_def feq_def shift_bool_def
        true_labels_def)
qed

section \<open>ZigZag: the first bar and the two extreme thresholds\<close>

lemma zz_vars_at_Suc:
  assumes "1 \<le> k"
  shows "zz_vars_at p x (Suc k) = zz_body p x k (zz_vars_at p x k)"
  using assms by (simp add: zz_vars_at_def)

lemma zz_vars_at_first:
  assumes "1 \<le> k" "x \<noteq> []"
  shows "length (zz (zz_vars_at p x k)) = length x \<and> zz (zz_vars_at p x k) ! 0 = x ! 0"
  using assms(1)
proof (induction k rule: dec_induct)
  case base
  show ?case using assms(2) by (simp add: zz_vars_at_def zz_start_def)
next
  case (step k)
  then show ?case unfolding zz_vars_at_Suc[OF step.hyps(1)]
    by (simp add: zz_body_def)
qed

lemma interpolate_first: "ys \<noteq> [] \<Longrightarrow> interpolate ys ! 0 = ys ! 0"
  by (cases ys; cases "hd ys") auto

lemma interp_gap_0: "interp_gap v w 0 = []"
  by (simp add: interp_gap_def)

lemma interp_run_defined:
  assumes "\<forall>y \<in> set ys. \<not> isnan y"
  shows "interp_run v 0 ys = ys"
  using assms by (induction ys arbitrary: v) (simp_all add: interp_gap_0)

lemma interpolate_defined:
  assumes "\<forall>y \<in> set ys. \<not> isnan y"
  shows "interpolate ys = ys"
  using assms by (cases ys) (simp_all add: interp_run_defined)

lemma interp_run_tail: "interp_run v k (replicate m NaN) = replicate (k + m) v"
  by (induction m arbitrary: k) simp_all

lemma interpolate_single:
  assumes "\<not> isnan v"
  shows "interpolate (v # replicate m NaN) = replicate (Suc m) v"
  using assms by (simp add: interp_run_tail)

lemma fill_next:
  assumes "k < length x"
  shows "(ys @ replicate (length x - k) z)[length ys + 0 := v] = (ys @ [v]) @ replicate (length x - Suc k) z"
proof -
  obtain m where m: "length x - k = Suc m" "length x - Suc k = m"
    using assms by (cases "length x - k") auto
  show ?thesis unfolding m by (simp add: list_update_append)
qed

text \<open>With threshold zero, a finite close that differs from the last pivot is a pivot.\<close>

lemma pivot_at_zero:
  assumes "is_finite u" "is_finite w" "u \<noteq> w"
  shows "fgt (fabs (fdiv (fsub u w) w)) (Fin (0 / 100))"
proof -
  from assms obtain a b where "u = Fin a" "w = Fin b" "a \<noteq> b"
    by (cases u; cases w) auto
  then show ?thesis by (auto simp: fgt_def fsub_def)
qed

lemma no_pivot_at_hundred:
  assumes "u = Fin a" "w = Fin b" "0 < b" "0 < a" "a \<le> 2 * b"
  shows "\<not> fgt (fabs (fdiv (fsub u w) w)) (Fin (100 / 100))"
proof -
  have "\<bar>(a - b) / b\<bar> \<le> 1" using assms(3,4,5) by (simp add: field_simps abs_le_iff)
  then show ?thesis using assms by (simp add: fgt_def fsub_def)
qed

lemma zz_all_pivots:
  assumes "\<forall>y \<in> set x. is_finite y" "\<forall>i. Suc i < length x \<longrightarrow> x ! i \<noteq> x ! Suc i"
    and "1 \<le> k" "k \<le> length x"
  shows "lastzig (zz_vars_at 0 x k) = x ! (k - 1)
       \<and> zz (zz_vars_at 0 x k) = take k x @ replicate (length x - k) (Fin 0)"
  using assms(3,4)
proof (induction k rule: dec_induct)
  case base
  then obtain y ys where "x = y # ys" by (cases x) auto
  then show ?case by (simp add: zz_vars_at_def zz_start_def)
next
  case (step k)
  then have lt: "k < length x" and ih: "lastzig (zz_vars_at 0 x k) = x ! (k - 1)"
    "zz (zz_vars_at 0 x k) = take k x @ replicate (length x - k) (Fin 0)" by simp_all
  obtain j where j: "k = Suc j" using step.hyps(1) by (cases k) auto
  have ne: "x ! (k - 1) \<noteq> x ! k" using assms(2) lt j by simp
  have fin: "is_finite (x ! (k - 1))" "is_finite (x ! k)" using assms(1) lt by simp_all
  have piv: "fgt (fabs (fdiv (fsub (x ! (k - 1)) (x ! k)) (x ! k))) (Fin (0 / 100))"
    by (rule pivot_at_zero[OF fin ne])
  have upd: "(take k x @ replicate (length x - k) (Fin 0))[k := x ! k]
           = take (Suc k) x @ replicate (length x - Suc k) (Fin 0)"
    using fill_next[OF lt, of "take k x" "Fin 0" "x ! k"] lt
    by (simp add: take_Suc_conv_app_nth)
  have "zz (zz_body 0 x k (zz_vars_at 0 x k)) = (zz (zz_vars_at 0 x k))[k := x ! k]"
    "lastzig (zz_body 0 x k (zz_vars_at 0 x k)) = x ! k"
    using piv by (simp_all add: zz_body_def ih(1))
  then show ?case unfolding zz_vars_at_Suc[OF step.hyps(1)] ih upd by simp
qed

lemma zz_no_pivots:
  assumes "\<forall>y \<in> set x. pos_fin y \<and> fval (x ! 0) \<le> 2 * fval y"
    and "1 \<le> k" "k \<le> length x"
  shows "lastzig (zz_vars_at 100 x k) = x ! 0
       \<and> zz (zz_vars_at 100 x k) = x ! 0 # replicate (k - 1) NaN @ replicate (length x - k) (Fin 0)"
  using assms(2,3)
proof (induction k rule: dec_induct)
  case base
  then obtain y ys where "x = y # ys" by (cases x) auto
  then show ?case by (simp add: zz_vars_at_def zz_start_def)
next
  case (step k)
  then have lt: "k < length x" and ih: "lastzig (zz_vars_at 100 x k) = x ! 0"
    "zz (zz_vars_at 100 x k) = x ! 0 # replicate (k - 1) NaN @ replicate (length x - k) (Fin 0)"
    by simp_all
  obtain j where j: "k = Suc j" using step.hyps(1) by (cases k) auto
  have "0 < length x" using lt by (cases x) simp_all
  then have "x ! 0 \<in> set x" "x ! k \<in> set x" using lt nth_mem by blast+
  then have "pos_fin (x ! 0) \<and> fval (x ! 0) \<le> 2 * fval (x ! 0)"
    "pos_fin (x ! k) \<and> fval (x ! 0) \<le> 2 * fval (x ! k)"
    using assms(1) by blast+
  then obtain a b where ab: "x ! 0 = Fin a" "0 < a" "x ! k = Fin b" "0 < b" "a \<le> 2 * b"
    by (auto simp: pos_fin_iff)
  have np: "\<not> fgt (fabs (fdiv (fsub (x ! 0) (x ! k)) (x ! k))) (Fin (100 / 100))"
    by (rule no_pivot_at_hundred[OF ab(1,3,4,2,5)])
  have upd: "(x ! 0 # replicate (k - 1) NaN @ replicate (length x - k) (Fin 0))[k := NaN]
           = x ! 0 # replicate (Suc k - 1) NaN @ replicate (length x - Suc k) (Fin 0)"
    using fill_next[OF lt, of "x ! 0 # replicate (k - 1) NaN" "Fin 0" NaN] j
    by (simp add: replicate_append_same)
  have "zz (zz_body 100 x k (zz_vars_at 100 x k)) = (zz (zz_vars_at 100 x k))[k := NaN]"
    "lastzig (zz_body 100 x k (zz_vars_at 100 x k)) = lastzig (zz_vars_at 100 x k)"
    using np by (simp_all add: zz_body_def ih(1))
  then show ?case unfolding zz_vars_at_Suc[OF step.hyps(1)] ih upd by simp
qed


text \<open>
  Claim C7, as amended. On every non-empty series the first output value is the first
  close, for every threshold. For finite closes, with threshold 0 a bar is a pivot when
  its close differs from the last pivot, so when no two consecutive closes are equal every
  bar is a pivot and the output is the close series. With threshold 100 a bar is a pivot
  when its close lies further from the last pivot than its own size; when the closes are
  positive and none is below half the first close, only the first bar is a pivot and every
  other bar is filled, with the first close, since no later pivot exists to interpolate
  towards.
\<close>

theorem zigzag_thresholds:
  assumes "data a \<noteq> []"
  shows "(\<exists>out. zigzag a percent = Inr out \<and> out ! 0 = close a ! 0)
     \<and> ((\<forall>y \<in> set (close a). is_finite y)
          \<and> (\<forall>i. Suc i < length (close a) \<longrightarrow> close a ! i \<noteq> close a ! Suc i) \<longrightarrow>
          zigzag_marks 0 (close a) = close a \<and> zigzag a 0 = Inr (close a))
     \<and> ((\<forall>y \<in> set (close a). pos_fin y \<and> fval (close a ! 0) \<le> 2 * fval y) \<longrightarrow>
          zigzag_marks 100 (close a) = close a ! 0 # replicate (length (close a) - 1) NaN
          \<and> zigzag a 100 = Inr (replicate (length (close a)) (close a ! 0)))"
proof -
  let ?x = "close a"
  have ne: "?x \<noteq> []" using assms by (simp add: close_def)
  then have n1: "1 \<le> length ?x" by (cases ?x) auto
  have zig: "zigzag a p = Inr (interpolate (zigzag_marks p ?x))" for p
    using ne by (simp add: zigzag_def Let_def)
  have first: "\<exists>out. zigzag a percent = Inr out \<and> out ! 0 = ?x ! 0"
  proof -
    have m: "length (zigzag_marks percent ?x) = length ?x" "zigzag_marks percent ?x ! 0 = ?x ! 0"
      using zz_vars_at_first[OF n1 ne, of percent] by (simp_all add: zigzag_marks_def)
    then have "zigzag_marks percent ?x \<noteq> []" using ne by auto
    then show ?thesis using zig[of percent] interpolate_first m(2) by simp
  qed
  have zero: "zigzag_marks 0 ?x = ?x \<and> zigzag a 0 = Inr ?x"
    if fin: "\<forall>y \<in> set ?x. is_finite y"
      and d: "\<forall>i. Suc i < length ?x \<longrightarrow> ?x ! i \<noteq> ?x ! Suc i"
  proof -
    have m: "zigzag_marks 0 ?x = ?x"
      using zz_all_pivots[OF fin d n1 order_refl] by (simp add: zigzag_marks_def)
    have "\<forall>y \<in> set ?x. \<not> isnan y" using fin by (metis is_finite.simps(4) isnan.elims(2))
    then show ?thesis using zig[of 0] m by (simp add: interpolate_defined)
  qed
  have hundred: "zigzag_marks 100 ?x = ?x ! 0 # replicate (length ?x - 1) NaN
          \<and> zigzag a 100 = Inr (replicate (length ?x) (?x ! 0))"
    if h: "\<forall>y \<in> set ?x. pos_fin y \<and> fval (?x ! 0) \<le> 2 * fval y"
  proof -
    have m: "zigzag_marks 100 ?x = ?x ! 0 # replicate (length ?x - 1) NaN"
      using zz_no_pivots[OF h n1 order_refl] by (simp add: zigzag_marks_def)
    have "?x ! 0 \<in> set ?x" using ne by (cases ?x) auto
    then have "pos_fin (?x ! 0)" using h by blast
    then have "\<not> isnan (?x ! 0)" by (auto simp: pos_fin_iff)
    moreover obtain n where n: "length ?x = Suc n" using n1 by (cases "length ?x") auto
    ultimately have "interpolate (?x ! 0 # replicate (length ?x - 1) NaN) = replicate (length ?x) (?x ! 0)"
      using interpolate_single[of "?x ! 0" n] by simp
    then show ?thesis using zig[of 100] m by simp
  qed
  show ?thesis using first zero hundred by blast
qed


text \<open>The theorem on the closes 10, 11, 9.\<close>

theorem zigzag_thresholds_witness:
  "data (asset_of_closes [10, 11, 9]) \<noteq> []
   \<and> list_all is_finite (close (asset_of_closes [10, 11, 9]))
   \<and> (\<exists>out. zigzag (asset_of_closes [10, 11, 9]) 7 = Inr out \<and> out ! 0 = Fin 10)
   \<and> zigzag (asset_of_closes [10, 11, 9]) 0 = Inr [Fin 10, Fin 11, Fin 9]
   \<and> zigzag (asset_of_closes [10, 11, 9]) 100 = Inr [Fin 10, Fin 10, Fin 10]"
proof -
  let ?a = "asset_of_closes [10, 11, 9]"
  have d: "data ?a = [day_bar 0 10, day_bar 1 11, day_bar 2 9]"
    by (simp add: asset_of_closes_def day_bar_def upt_rec numeral_2_eq_2)
  have c: "close ?a = [Fin 10, Fin 11, Fin 9]" by (simp add: close_def d day_bar_def)
  have h1: "\<forall>y \<in> set (close ?a). is_finite y" by (simp add: c)
  have h2: "data ?a \<noteq> []" by (simp add: d)
  have h3: "\<forall>i. Suc i < length (close ?a) \<longrightarrow> close ?a ! i \<noteq> close ?a ! Suc i"
    unfolding c by (auto simp: less_Suc_eq numeral_3_eq_3)
  have h4: "\<forall>y \<in> set (close ?a). pos_fin y \<and> fval (close ?a ! 0) \<le> 2 * fval y"
    unfolding c by simp
  show ?thesis
    using zigzag_thresholds[OF h2, of 7] h1 h2 h3 h4
    by (simp add: c list_all_iff numeral_3_eq_3)
qed

text \<open>
  The claim as stated fails on each count. With threshold 0 on the closes 1, 1, 2 the
  second bar equals the last pivot, is not a pivot, and is interpolated to 3/2, so the
  output is not the close series. With threshold 100 on the closes 10, 4 the second bar is
  a pivot: the change is measured against the bar's own close, and 6 / 4 exceeds 1. With
  threshold 0 on the closes 1, infinity the quotient is undefined, the second bar is not
  a pivot, and it is filled with 1. On a series with no bars the first close does not
  exist and the call raises.
\<close>

theorem zigzag_thresholds_counterexample:
  "zigzag_marks 0 (close (asset_of_closes [1, 1, 2])) = [Fin 1, NaN, Fin 2]
   \<and> zigzag (asset_of_closes [1, 1, 2]) 0 = Inr [Fin 1, Fin (3 / 2), Fin 2]
   \<and> zigzag_marks 100 (close (asset_of_closes [10, 4])) = [Fin 10, Fin 4]
   \<and> close zz_gap = [Fin 1, PInf]
   \<and> zigzag_marks 0 (close zz_gap) = [Fin 1, NaN]
   \<and> zigzag zz_gap 0 = Inr [Fin 1, Fin 1]
   \<and> zigzag no_bars 7 = Inl IndexError"
proof -
  have c: "close (asset_of_closes [1, 1, 2]) = [Fin 1, Fin 1, Fin 2]"
    "close (asset_of_closes [10, 4]) = [Fin 10, Fin 4]"
    by (simp_all add: close_def asset_of_closes_def day_bar_def upt_rec numeral_2_eq_2)
  have g: "close zz_gap = [Fin 1, PInf]" "close no_bars = []"
    by (simp_all add: close_def zz_gap_def no_bars_def day_bar_def)
  have m: "zigzag_marks 0 [Fin 1, Fin 1, Fin 2] = [Fin 1, NaN, Fin 2]"
    by (simp add: zigzag_marks_def zz_vars_at_def zz_start_def zz_body_def fgt_def fsub_def
        upt_rec numeral_2_eq_2 numeral_3_eq_3)
  have m2: "zigzag_marks 100 [Fin 10, Fin 4] = [Fin 10, Fin 4]"
    by (simp add: zigzag_marks_def zz_vars_at_def zz_start_def zz_body_def fgt_def fsub_def
        upt_rec numeral_2_eq_2)
  have m3: "zigzag_marks 0 [Fin 1, PInf] = [Fin 1, NaN]"
    by (simp add: zigzag_marks_def zz_vars_at_def zz_start_def zz_body_def fgt_def fsub_def
        upt_rec numeral_2_eq_2)
  have i: "interpolate [Fin 1, NaN, Fin 2] = [Fin 1, Fin (3 / 2), Fin 2]"
    by (simp add: interp_gap_def fsub_def upt_conv_Cons)
  have i3: "interpolate [Fin 1, NaN] = [Fin 1, Fin 1]" by simp
  show ?thesis unfolding zigzag_def Let_def c g m m2 m3 i i3 by simp
qed

section \<open>Average Directional Index: no recursion\<close>

lemma length_adx: "length (average_directional_index ema a n) = length (directional_index ema a n)"
  by (simp add: average_directional_index_def Let_def length_shift1)

lemma adx_nth:
  assumes "1 \<le> i" "i < length (directional_index ema a n)"
  shows "average_directional_index ema a n ! i =
         fdiv (fadd (fmul (Fin (real n - 1)) (directional_index ema a n ! (i - 1)))
                    (directional_index ema a n ! i)) (Fin (real n))"
  using assms by (simp add: average_directional_index_def Let_def length_shift1 shift1_nth)

text \<open>
  Claim C6. The index should satisfy the recursion adx[i] = ((n - 1) * adx[i - 1] + dx[i]) / n.
  The source combines each \<^verbatim>\<open>dx\<close> with the previous \<^verbatim>\<open>dx\<close>, not with the previous
  \<^verbatim>\<open>adx\<close>: for every smoothing, window \<open>n \<ge> 2\<close> and bar \<open>i \<ge> 2\<close> at which
  \<^verbatim>\<open>dx\<close> is finite at the bars \<open>i - 2\<close>, \<open>i - 1\<close> and \<open>i\<close>, the output is
  ((n - 1) * dx[i - 1] + dx[i]) / n, and it violates the recursion whenever
  dx[i - 2] differs from dx[i - 1].
\<close>

theorem adx_not_recursive:
  assumes "2 \<le> n" and "2 \<le> i" and "i < length (directional_index ema a n)"
    and "directional_index ema a n ! (i - 2) = Fin p"
    and "directional_index ema a n ! (i - 1) = Fin q"
    and "directional_index ema a n ! i = Fin r"
    and "p \<noteq> q"
  shows "average_directional_index ema a n ! i =
           Fin (((real n - 1) * q + r) / real n)
       \<and> average_directional_index ema a n ! i \<noteq>
           fdiv (fadd (fmul (Fin (real n - 1)) (average_directional_index ema a n ! (i - 1)))
                      (directional_index ema a n ! i)) (Fin (real n))"
proof -
  let ?dx = "directional_index ema a n"
  have n0: "real n \<noteq> 0" and n1: "real n - 1 \<noteq> 0" using assms(1) by simp_all
  have i1: "1 \<le> i" "1 \<le> i - 1" "i - 1 < length ?dx" "i - 1 - 1 = i - 2"
    using assms(2,3) by simp_all
  have cur: "average_directional_index ema a n ! i = Fin (((real n - 1) * q + r) / real n)"
    using adx_nth[OF i1(1) assms(3)] assms(5,6) n0 by simp
  have prev: "average_directional_index ema a n ! (i - 1) = Fin (((real n - 1) * p + q) / real n)"
    using adx_nth[OF i1(2,3)] assms(4,5) n0 i1(4) by simp
  have rhs: "fdiv (fadd (fmul (Fin (real n - 1)) (average_directional_index ema a n ! (i - 1)))
                      (?dx ! i)) (Fin (real n))
           = Fin (((real n - 1) * (((real n - 1) * p + q) / real n) + r) / real n)"
    unfolding prev assms(6) using n0 by simp
  define X where "X = ((real n - 1) * p + q) / real n"
  have "((real n - 1) * q + r) / real n \<noteq> ((real n - 1) * X + r) / real n"
  proof
    assume "((real n - 1) * q + r) / real n = ((real n - 1) * X + r) / real n"
    then have "(real n - 1) * q = (real n - 1) * X"
      using n0 by simp
    then have "q = X" using n1 mult_left_cancel[of "real n - 1" q X] by blast
    then have "q * real n = (real n - 1) * p + q" using n0 by (simp add: X_def field_simps)
    then have "(real n - 1) * q = (real n - 1) * p" by (simp add: algebra_simps)
    then have "q = p" using n1 mult_left_cancel[of "real n - 1" q p] by blast
    then show False using assms(7) by simp
  qed
  then show ?thesis unfolding rhs cur X_def by simp
qed

text \<open>
  The four-bar frame with window 2 under the weighted mean: \<^verbatim>\<open>dx\<close> is undefined, 1, 1/2,
  1/25; the output at the last bar is 27/100, where the recursion asks for 79/200.
\<close>

theorem adx_not_recursive_witness:
  "directional_index ewma adx_demo 2 = [NaN, Fin 1, Fin (1 / 2), Fin (1 / 25)]
   \<and> average_directional_index ewma adx_demo 2 ! 2 = Fin (3 / 4)
   \<and> average_directional_index ewma adx_demo 2 ! 3 = Fin (27 / 100)
   \<and> average_directional_index ewma adx_demo 2 ! 3 \<noteq>
        fdiv (fadd (fmul (Fin (real 2 - 1)) (average_directional_index ewma adx_demo 2 ! (3 - 1)))
                   (directional_index ewma adx_demo 2 ! 3)) (Fin (real 2))"
proof -
  have dx: "directional_index ewma adx_demo 2 = [NaN, Fin 1, Fin (1 / 2), Fin (1 / 25)]"
    by (simp add: directional_index_def true_range_def plus_dm_def minus_dm_def adx_demo_def
        high_def low_def shift1_def fsub_def fgt_def ewma_def Let_def)
  have a2: "average_directional_index ewma adx_demo 2 ! 2 = Fin (3 / 4)"
    by (simp add: average_directional_index_def dx shift1_def)
  have h: "(2::nat) \<le> 2" "(2::nat) \<le> 3" "3 < length (directional_index ewma adx_demo 2)"
    "directional_index ewma adx_demo 2 ! (3 - 2) = Fin 1"
    "directional_index ewma adx_demo 2 ! (3 - 1) = Fin (1 / 2)"
    "directional_index ewma adx_demo 2 ! 3 = Fin (1 / 25)" "(1::real) \<noteq> 1 / 2"
    by (simp_all add: dx)
  show ?thesis
    using adx_not_recursive[OF h] dx a2 by simp
qed

section \<open>Summary statistics: short histories and the return table\<close>

lemma initial_stats_metrics: "\<forall>k \<in> set metric_keys. initial_stats a rf k = Some (Num NaN)"
  by (simp add: metric_keys_def initial_stats_def)

lemma initial_stats_dom:
  "dom (initial_stats a rf) = set metric_keys \<union>
     {''name'', ''start'', ''end'', ''market_cap'', ''yearly_risk_free_return'', ''return_table''}"
  by (auto simp: metric_keys_def initial_stats_def dom_def)

lemma initial_stats_populated:
  "initial_stats a rf ''name'' = Some (Text (symbol a))"
  "initial_stats a rf ''start'' = Some (Stamp (hd (index a)))"
  "initial_stats a rf ''end'' = Some (Stamp (last (index a)))"
  "initial_stats a rf ''market_cap'' = Some (Num (market_cap a))"
  "initial_stats a rf ''yearly_risk_free_return'' = Some (Num (Fin rf))"
  "initial_stats a rf ''return_table'' = Some (Table [])"
  by (simp_all add: initial_stats_def)

text \<open>
  Claim C4. For an asset with exactly three daily bars, and with a \<^verbatim>\<open>calc_returns\<close> that
  yields no more returns than there are prices, \<^verbatim>\<open>calc_stats\<close> returns without raising; the
  name, start, end, market capitalisation and risk-free rate are populated, each of the
  forty metric entries is not-a-number, the return table is empty, and the dictionary has
  no other entry.
\<close>

theorem calc_stats_three_bars:
  assumes "length (data a) = 3" and "\<forall>s. length (calc_returns l s) \<le> length s"
  shows "\<exists>st. calc_stats l a rf = Inr st
     \<and> st ''name'' = Some (Text (symbol a))
     \<and> st ''start'' = Some (Stamp (Date (hd (data a))))
     \<and> st ''end'' = Some (Stamp (Date (last (data a))))
     \<and> st ''market_cap'' = Some (Num (market_cap a))
     \<and> st ''yearly_risk_free_return'' = Some (Num (Fin rf))
     \<and> st ''return_table'' = Some (Table [])
     \<and> (\<forall>k \<in> set metric_keys. st k = Some (Num NaN))
     \<and> dom st = set metric_keys \<union>
          {''name'', ''start'', ''end'', ''market_cap'', ''yearly_risk_free_return'', ''return_table''}"
proof -
  let ?daily = "zip (index a) (close a)"
  have len: "length ?daily = 3" using assms(1) by (simp add: index_def close_def)
  have ne: "data a \<noteq> []" using assms(1) by auto
  have "length (calc_returns l ?daily) \<le> length ?daily"
    using assms(2) by blast
  then have r: "length (calc_returns l ?daily) < 4"
    unfolding len by simp
  have "?daily \<noteq> []" using len by auto
  then have cs: "calc_stats l a rf = Inr (initial_stats a rf)"
    using len r by (simp add: calc_stats_def Let_def)
  have hd: "hd (index a) = Date (hd (data a))" "last (index a) = Date (last (data a))"
    using ne by (simp_all add: index_def hd_map last_map)
  show ?thesis
    unfolding cs using initial_stats_metrics[of a rf] initial_stats_dom[of a rf]
      initial_stats_populated[of a rf] hd
    by simp
qed

lemma length_pct_returns: "length (pct_returns s) = length s"
  by (simp add: pct_returns_def length_shift1)

text \<open>
  The theorem on the closes 1, 2, 3 for every library whose \<^verbatim>\<open>calc_returns\<close> is the
  relative change.
\<close>

theorem calc_stats_three_bars_witness:
  "\<forall>L. length (data (asset_of_closes [1, 2, 3])) = 3
     \<and> (\<forall>s. length (calc_returns (L\<lparr>calc_returns := pct_returns\<rparr>) s) \<le> length s)
     \<and> (\<exists>st. calc_stats (L\<lparr>calc_returns := pct_returns\<rparr>) (asset_of_closes [1, 2, 3]) (1 / 50) = Inr st
          \<and> st ''start'' = Some (Stamp \<lparr>ordinal = 0, year = 2020, month = 1\<rparr>)
          \<and> st ''end'' = Some (Stamp \<lparr>ordinal = 2, year = 2020, month = 1\<rparr>)
          \<and> st ''daily_mean'' = Some (Num NaN)
          \<and> st ''total_return'' = Some (Num NaN)
          \<and> st ''mtd'' = Some (Num NaN)
          \<and> st ''ytd'' = Some (Num NaN)
          \<and> st ''return_table'' = Some (Table []))"
proof
  fix L :: lib
  let ?l = "L\<lparr>calc_returns := pct_returns\<rparr>"
  let ?a = "asset_of_closes [1, 2, 3]"
  have d: "data ?a = [day_bar 0 1, day_bar 1 2, day_bar 2 3]"
    by (simp add: asset_of_closes_def day_bar_def upt_rec numeral_2_eq_2)
  have h1: "length (data ?a) = 3" by (simp add: d)
  have h2: "\<forall>s. length (calc_returns ?l s) \<le> length s" by (simp add: length_pct_returns)
  have k: "''daily_mean'' \<in> set metric_keys" "''total_return'' \<in> set metric_keys"
    "''mtd'' \<in> set metric_keys" "''ytd'' \<in> set metric_keys"
    by (simp_all add: metric_keys_def)
  from calc_stats_three_bars[OF h1 h2, of "1 / 50"] obtain st where st:
    "calc_stats ?l ?a (1 / 50) = Inr st"
    "st ''start'' = Some (Stamp (Date (hd (data ?a))))"
    "st ''end'' = Some (Stamp (Date (last (data ?a))))"
    "st ''return_table'' = Some (Table [])"
    "\<forall>k \<in> set metric_keys. st k = Some (Num NaN)"
    by blast
  have "st ''start'' = Some (Stamp \<lparr>ordinal = 0, year = 2020, month = 1\<rparr>)"
    "st ''end'' = Some (Stamp \<lparr>ordinal = 2, year = 2020, month = 1\<rparr>)"
    using st(2,3) by (simp_all add: d day_bar_def)
  then show "length (data ?a) = 3
     \<and> (\<forall>s. length (calc_returns ?l s) \<le> length s)
     \<and> (\<exists>st. calc_stats ?l ?a (1 / 50) = Inr st
          \<and> st ''start'' = Some (Stamp \<lparr>ordinal = 0, year = 2020, month = 1\<rparr>)
          \<and> st ''end'' = Some (Stamp \<lparr>ordinal = 2, year = 2020, month = 1\<rparr>)
          \<and> st ''daily_mean'' = Some (Num NaN)
          \<and> st ''total_return'' = Some (Num NaN)
          \<and> st ''mtd'' = Some (Num NaN)
          \<and> st ''ytd'' = Some (Num NaN)
          \<and> st ''return_table'' = Some (Table []))"
    using h1 h2 st(1,4,5) k by blast
qed

lemma dict_set_subset: "set (dict_set k v ps) \<subseteq> insert (k, v) (set ps)"
  by (induction ps) auto

lemma dict_set_keys: "fst ` set (dict_set k v ps) = insert k (fst ` set ps)"
  by (induction ps) auto

lemma dict_set_distinct: "distinct (map fst ps) \<Longrightarrow> distinct (map fst (dict_set k v ps))"
  by (induction ps) (auto simp: dict_set_keys)

lemma dict_set_fresh: "k \<notin> fst ` set ps \<Longrightarrow> dict_set k v ps = ps @ [(k, v)]"
  by (induction ps) auto

lemma table_set_ok:
  assumes "\<forall>p \<in> set tbl. months_ok (snd p)" "m \<noteq> 13"
  shows "\<forall>p \<in> set (table_set y m v tbl). months_ok (snd p)"
proof -
  let ?old = "case map_of tbl y of None \<Rightarrow> [] | Some months \<Rightarrow> months"
  have old: "months_ok ?old"
  proof (cases "map_of tbl y")
    case None
    then show ?thesis by (simp add: months_ok_def)
  next
    case (Some ms)
    then have "(y, ms) \<in> set tbl" by (rule map_of_SomeD)
    then show ?thesis using assms(1) Some by force
  qed
  have new: "months_ok (dict_set m v ?old)"
    using old assms(2) by (auto simp: months_ok_def dict_set_distinct dict_set_keys)
  show ?thesis
    using dict_set_subset[of y "dict_set m v ?old" tbl] assms(1) new
    by (auto simp: table_set_def)
qed

lemma table_fold_ok:
  assumes "\<forall>p \<in> set tbl. months_ok (snd p)" "\<forall>q \<in> set mr. month (fst q) \<noteq> 13"
  shows "\<forall>p \<in> set (fold (\<lambda>(mi, v) tbl. table_set (year mi) (month mi) v tbl) mr tbl).
           months_ok (snd p)"
  using assms
proof (induction mr arbitrary: tbl)
  case Nil
  then show ?case by simp
next
  case (Cons q mr)
  obtain mi v where q: "q = (mi, v)" by (cases q)
  have m: "month mi \<noteq> 13" using Cons.prems(2) q by simp
  have "\<forall>p \<in> set (table_set (year mi) (month mi) v tbl). months_ok (snd p)"
    by (rule table_set_ok[OF Cons.prems(1) m])
  then show ?case using Cons.IH Cons.prems(2) q by simp
qed

lemma year_to_date_entry:
  assumes "months_ok months"
  shows "distinct (map fst (dict_set 13 v months))
       \<and> map_of (dict_set 13 v months) 13 = Some v
       \<and> filter (\<lambda>(m, x). m \<noteq> 13) (dict_set 13 v months) = months"
proof -
  have fresh: "13 \<notin> fst ` set months" and dist: "distinct (map fst months)"
    using assms by (simp_all add: months_ok_def)
  have d: "dict_set 13 v months = months @ [(13, v)]" by (rule dict_set_fresh[OF fresh])
  have none: "map_of months 13 = None" using fresh by (simp add: map_of_eq_None_iff)
  have f: "filter (\<lambda>(m, x). m \<noteq> 13) months = months"
    using fresh by (induction months) auto
  show ?thesis unfolding d using dist fresh none f by (auto simp: map_add_def)
qed

lemma return_table_entry:
  assumes "mr \<noteq> []" "\<forall>q \<in> set mr. month (fst q) \<noteq> 13"
    and "(y, months) \<in> set (return_table mr mp0 dp0)"
  shows "distinct (map fst months)
       \<and> map_of months 13 =
           Some (fsub (np_prod (map (\<lambda>v. fadd v (Fin 1))
                         (map snd (filter (\<lambda>(m, v). m \<noteq> 13) months)))) (Fin 1))"
proof -
  let ?t0 = "fold (\<lambda>(mi, v) tbl. table_set (year mi) (month mi) v tbl) mr []"
  let ?fidx = "fst (hd mr)"
  let ?t1 = "table_set (year ?fidx) (month ?fidx) (fsub (fdiv mp0 dp0) (Fin 1)) ?t0"
  have t0: "\<forall>p \<in> set ?t0. months_ok (snd p)"
    using table_fold_ok[of "[]" mr] assms(2) by simp
  have "hd mr \<in> set mr" using assms(1) by simp
  then have "month ?fidx \<noteq> 13" using assms(2) by blast
  then have t1: "\<forall>p \<in> set ?t1. months_ok (snd p)" by (rule table_set_ok[OF t0])
  from assms(3) obtain ms where ms: "(y, ms) \<in> set ?t1"
    "months = dict_set 13 (year_to_date ms) ms"
    by (auto simp: return_table_def Let_def)
  have ok: "months_ok ms" using t1 ms(1) by force
  show ?thesis
    unfolding ms(2) using year_to_date_entry[OF ok, of "year_to_date ms"]
    by (simp add: year_to_date_def)
qed


lemma daily_stats_table:
  "daily_stats l drf daily_price r info st ''return_table'' = st ''return_table''"
  by (simp add: daily_stats_def Let_def)

lemma monthly_stats_table:
  "monthly_stats l mrf daily_price mr mp2 mp0 st ''return_table'' =
     Some (Table (return_table mr mp0 (snd (hd daily_price))))"
  by (simp add: monthly_stats_def Let_def)

lemma monthly_shape_stats_table:
  "monthly_shape_stats l daily_price mr st ''return_table'' = st ''return_table''"
  by (simp add: monthly_shape_stats_def)

lemma yearly_stats_table:
  "yearly_stats l rf daily_price monthly_price yr yp2 st ''return_table'' = st ''return_table''"
  by (simp add: yearly_stats_def Let_def)

lemma yearly_shape_stats_table:
  "yearly_shape_stats l daily_price yr st ''return_table'' = st ''return_table''"
  by (simp add: yearly_shape_stats_def Let_def)

lemma monthly_on_table:
  assumes "monthly_on l rf daily_price monthly_price yearly_price st0 = Inr st"
  shows "st ''return_table'' = st0 ''return_table''
       \<or> (2 \<le> length (calc_returns l monthly_price)
          \<and> st ''return_table'' =
                Some (Table (return_table (calc_returns l monthly_price)
                  (snd (hd monthly_price)) (snd (hd daily_price)))))"
  using assms
  by (auto simp: monthly_on_def Let_def monthly_stats_table monthly_shape_stats_table
      yearly_stats_table yearly_shape_stats_table split: if_splits sum.splits)

lemma calc_stats_table:
  assumes "calc_stats l a rf = Inr st"
  shows "st ''return_table'' = Some (Table [])
       \<or> (2 \<le> length (calc_returns l (resample_last l Monthly (zip (index a) (close a))))
          \<and> (\<exists>mp0 dp0. st ''return_table'' =
                Some (Table (return_table
                  (calc_returns l (resample_last l Monthly (zip (index a) (close a)))) mp0 dp0))))"
proof (cases "zip (index a) (close a) = [] \<or> length (zip (index a) (close a)) = 1
              \<or> length (calc_returns l (zip (index a) (close a))) < 4")
  case True
  then have "st = initial_stats a rf" using assms
    by (auto simp: calc_stats_def Let_def split: if_splits)
  then show ?thesis by (simp add: initial_stats_def)
next
  case False
  then obtain info st0 where m: "monthly_on l rf (zip (index a) (close a))
      (resample_last l Monthly (zip (index a) (close a)))
      (resample_last l Annual (zip (index a) (close a))) st0 = Inr st"
    and st0: "st0 ''return_table'' = Some (Table [])"
    using assms
    by (auto simp: calc_stats_def Let_def daily_stats_table initial_stats_def
        split: if_splits sum.splits)
  show ?thesis using monthly_on_table[OF m] st0 by auto
qed

text \<open>
  Claim C5. Whenever \<^verbatim>\<open>calc_stats\<close> returns and the labels of the monthly returns carry
  calendar months, every year of the return table has distinct month keys and its entry at
  month 13 is the product, over the year's other entries, of one plus the return, minus
  one. The table is empty unless there are at least two monthly returns (lemma
  \<open>calc_stats_table\<close>).
\<close>

theorem return_table_year_to_date:
  assumes "calc_stats l a rf = Inr st" and "st ''return_table'' = Some (Table tbl)"
    and "\<forall>q \<in> set (calc_returns l (resample_last l Monthly (zip (index a) (close a)))).
           1 \<le> month (fst q) \<and> month (fst q) \<le> 12"
    and "(y, months) \<in> set tbl"
  shows "distinct (map fst months)
       \<and> map_of months 13 =
           Some (fsub (np_prod (map (\<lambda>v. fadd v (Fin 1))
                         (map snd (filter (\<lambda>(m, v). m \<noteq> 13) months)))) (Fin 1))"
proof -
  let ?mr = "calc_returns l (resample_last l Monthly (zip (index a) (close a)))"
  from calc_stats_table[OF assms(1)] assms(2,4)
  obtain mp0 dp0 where t: "2 \<le> length ?mr" "tbl = return_table ?mr mp0 dp0"
    by auto
  have ne: "?mr \<noteq> []" using t(1) by auto
  have m: "\<forall>q \<in> set ?mr. month (fst q) \<noteq> 13" using assms(3) by auto
  show ?thesis using return_table_entry[OF ne m] assms(4) t(2) by blast
qed


lemma stats_demo_drawdown_info:
  "drawdown_info stats_demo =
     Inr [\<lparr>ep_start = \<lparr>ordinal = 60, year = 2021, month = 3\<rparr>,
           ep_end = \<lparr>ordinal = 61, year = 2021, month = 3\<rparr>,
           ep_days = 1, ep_drawdown = Fin (- (1 / 11))\<rparr>]"
proof -
  have dd: "drawdown stats_demo = [Fin 0, Fin 0, Fin (- (1 / 11)), Fin 0]"
    by (simp add: drawdown_def close_def stats_demo_def ffill_def expanding_max_def Let_def fsub_def)
  show ?thesis unfolding drawdown_info_def dd
    by (simp add: index_def stats_demo_def Let_def feq_def shift_bool_def
        true_labels_def label_slice_def)
qed

text \<open>
  The theorem on the four closes across the end of February, for every library whose
  \<^verbatim>\<open>calc_returns\<close> is the relative change and whose resampling keeps the last entry of a
  period: the returns of February and March are 1/10 and 1/11, and month 13 holds
  11/10 * 12/11 - 1 = 1/5.
\<close>

theorem return_table_year_to_date_witness:
  "\<forall>L. \<exists>st. calc_stats (L\<lparr>calc_returns := pct_returns, resample_last := period_last\<rparr>)
              stats_demo (1 / 50) = Inr st
     \<and> st ''return_table'' =
          Some (Table [(2021, [(2, Fin (1 / 10)), (3, Fin (1 / 11)), (13, Fin (1 / 5))])])
     \<and> map_of [(2, Fin (1 / 10)), (3, Fin (1 / 11)), (13, Fin (1 / 5))] (13::nat) =
          Some (fsub (np_prod (map (\<lambda>v. fadd v (Fin 1)) [Fin (1 / 10), Fin (1 / 11)])) (Fin 1))"
proof
  fix L :: lib
  let ?l = "L\<lparr>calc_returns := pct_returns, resample_last := period_last\<rparr>"
  let ?tbl = "[(2021::int, [(2::nat, Fin (1 / 10)), (3, Fin (1 / 11)), (13, Fin (1 / 5))])]"
  let ?D = "[(\<lparr>ordinal = 58, year = 2021, month = 2\<rparr>, Fin 10),
      (\<lparr>ordinal = 59, year = 2021, month = 2\<rparr>, Fin 11),
      (\<lparr>ordinal = 60, year = 2021, month = 3\<rparr>, Fin 10),
      (\<lparr>ordinal = 61, year = 2021, month = 3\<rparr>, Fin 12)]"
  let ?MP = "[(\<lparr>ordinal = 59, year = 2021, month = 2\<rparr>, Fin 11),
      (\<lparr>ordinal = 61, year = 2021, month = 3\<rparr>, Fin 12)]"
  let ?MR = "[(\<lparr>ordinal = 59, year = 2021, month = 2\<rparr>, NaN),
      (\<lparr>ordinal = 61, year = 2021, month = 3\<rparr>, Fin (1 / 11))]"
  have daily: "zip (index stats_demo) (close stats_demo) = ?D"
    by (simp add: index_def close_def stats_demo_def)
  have mp: "period_last Monthly ?D = ?MP"
    by (simp add: same_period_def)
  have mr: "pct_returns ?MP = ?MR"
    by (simp add: pct_returns_def shift1_def fsub_def)
  have tab: "return_table ?MR (Fin 11) (Fin 10) = ?tbl"
    by (simp add: return_table_def table_set_def year_to_date_def fsub_def Let_def)
  have mo: "\<exists>st. monthly_on ?l (1 / 50) ?D ?MP yp st0 = Inr st
              \<and> st ''return_table'' = Some (Table ?tbl)" for yp st0
    by (simp add: monthly_on_def Let_def mr from_end_def vals_def monthly_stats_table tab)
  have cs: "\<exists>st. calc_stats ?l stats_demo (1 / 50) = Inr st
              \<and> st ''return_table'' = Some (Table ?tbl)"
    unfolding calc_stats_def Let_def daily
    using mo by (simp add: length_pct_returns stats_demo_drawdown_info same_period_def)
  then obtain st where st: "calc_stats ?l stats_demo (1 / 50) = Inr st"
    "st ''return_table'' = Some (Table ?tbl)" by blast
  have h3: "\<forall>q \<in> set (calc_returns ?l (resample_last ?l Monthly (zip (index stats_demo) (close stats_demo)))).
           1 \<le> month (fst q) \<and> month (fst q) \<le> 12"
    by (simp add: daily same_period_def pct_returns_def shift1_def)
  have h4: "(2021, [(2, Fin (1 / 10)), (3, Fin (1 / 11)), (13, Fin (1 / 5))]) \<in> set ?tbl"
    by simp
  from return_table_year_to_date[OF st h3 h4]
  have "map_of [(2, Fin (1 / 10)), (3, Fin (1 / 11)), (13, Fin (1 / 5))] (13::nat) =
          Some (fsub (np_prod (map (\<lambda>v. fadd v (Fin 1)) [Fin (1 / 10), Fin (1 / 11)])) (Fin 1))"
    by simp
  then show "\<exists>st. calc_stats ?l stats_demo (1 / 50) = Inr st
     \<and> st ''return_table'' = Some (Table ?tbl)
     \<and> map_of [(2, Fin (1 / 10)), (3, Fin (1 / 11)), (13, Fin (1 / 5))] (13::nat) =
          Some (fsub (np_prod (map (\<lambda>v. fadd v (Fin 1)) [Fin (1 / 10), Fin (1 / 11)])) (Fin 1))"
    using st by blast
qed


end
